theory Spec2Isabelle
  imports Complex_Main "HOL-Library.AList"
begin

section \<open>The AgentBridge contract: state handlers and the discover reader\<close>

text \<open>
  The development embeds the state handlers of the AgentBridge contract
  (\<^verbatim>\<open>agent_register\<close>, \<^verbatim>\<open>agent_update\<close>, \<^verbatim>\<open>agent_unregister\<close>, \<^verbatim>\<open>match_create\<close>,
  \<^verbatim>\<open>match_propose\<close>, \<^verbatim>\<open>match_accept\<close>, \<^verbatim>\<open>match_complete\<close>, \<^verbatim>\<open>channel_join\<close>,
  \<^verbatim>\<open>channel_leave\<close>, \<^verbatim>\<open>message_record\<close>) and the read handler \<^verbatim>\<open>discover\<close> of the
  AgentBridge protocol.

  Conventions of the embedding:
  \<^item> a JavaScript object used as a dictionary is a map \<open>string \<rightharpoonup> 'v\<close>; the agent registry,
    which \<^verbatim>\<open>Object.values\<close> enumerates, is an association list in insertion order
    (assignment to an existing key keeps its place, a new key goes last, as for string keys
    of a JavaScript object);
  \<^item> timestamps, counters and ttl are integers, proficiencies, scores and ratings are reals
    (JavaScript numbers without rounding, NaN or infinities);
  \<^item> an optional payload field is an \<open>option\<close>; \<^verbatim>\<open>undefined\<close> and \<^verbatim>\<open>null\<close> are both \<open>None\<close>;
  \<^item> a handler is a program over the caller's state object: it may throw, it may write to
    the objects shared with the caller (the handlers copy the state only one level deep),
    and it returns the new state together with the event stored under \<^verbatim>\<open>_event\<close>.
\<close>

subsection \<open>JavaScript helpers\<close>

text \<open>\<^verbatim>\<open>if (!arr.includes(x)) arr.push(x)\<close>, and \<^verbatim>\<open>Set.prototype.add\<close> on a set kept in
  insertion order.\<close>

definition push_if_absent :: "'a list \<Rightarrow> 'a \<Rightarrow> 'a list" where
  "push_if_absent xs x = (if x \<in> set xs then xs else xs @ [x])"

text \<open>\<^verbatim>\<open>arr.slice(0, end)\<close>: a negative end counts from the end of the array.\<close>

definition js_slice0 :: "'a list \<Rightarrow> int \<Rightarrow> 'a list" where
  "js_slice0 xs e = take (nat (if e < 0 then int (length xs) + e else e)) xs"

text \<open>Truthiness of a string-valued and of a number-valued optional field.\<close>

definition truthy_str :: "string option \<Rightarrow> bool" where
  "truthy_str s = (case s of None \<Rightarrow> False | Some t \<Rightarrow> t \<noteq> [])"

definition truthy_num :: "real option \<Rightarrow> bool" where
  "truthy_num x = (case x of None \<Rightarrow> False | Some r \<Rightarrow> r \<noteq> 0)"

text \<open>The decimal text of an integer, as a template literal prints it.\<close>

fun nat_digits :: "nat \<Rightarrow> string" where
  "nat_digits n =
     (if n < 10 then [''0123456789'' ! n]
      else nat_digits (n div 10) @ [''0123456789'' ! (n mod 10)])"

declare nat_digits.simps [simp del]

definition js_int_to_string :: "int \<Rightarrow> string" where
  "js_int_to_string i = (if i < 0 then CHR ''-'' # nat_digits (nat (- i)) else nat_digits (nat i))"

subsection \<open>Data model\<close>

record capability =
  cap_name :: string
  cap_proficiency :: real
  cap_certified :: bool
  cap_certifiedBy :: "string option"
  cap_certifiedAt :: "int option"

record agent =
  a_id :: string
  a_name :: string
  a_description :: string
  a_capabilities :: "capability list"
  a_protocol :: string
  a_visibility :: string
  a_endpoint :: "string option"
  a_status :: string
  a_createdAt :: int
  a_updatedAt :: int
  a_matchCount :: int
  a_successCount :: int

datatype request_status = Pending | Accepted | Completed

record match_request =
  r_id :: string
  r_requesterId :: string
  r_requiredCapabilities :: "string list"
  r_minScore :: real
  r_taskDescription :: string
  r_preferredProtocols :: "string list"
  r_expiresAt :: int
  r_createdAt :: int
  r_status :: request_status
  r_acceptedWith :: "string option"
  r_acceptedAt :: "int option"
  r_completedAt :: "int option"
  r_success :: "bool option"
  r_rating :: "real option"
  r_feedback :: "string option"

datatype proposal_status = Proposed | ProposalAccepted

record match_proposal =
  mp_matchId :: string
  mp_proposerId :: string
  mp_score :: real
  mp_matchedCapabilities :: "string list"
  mp_proposedAt :: int
  mp_status :: proposal_status

record rating_entry =
  rt_rating :: real
  rt_from :: string
  rt_matchId :: string
  rt_timestamp :: int

record reputation_entry =
  totalRatings :: int
  averageRating :: real
  ratings :: "rating_entry list"

record stats_rec =
  totalAgents :: int
  totalMatches :: int
  successfulMatches :: int
  totalChannels :: int
  totalMessages :: int

record view =
  agents :: "(string \<times> agent) list"
  capabilityIndex :: "string \<rightharpoonup> string list"
  matchRequests :: "string \<rightharpoonup> match_request"
  matchProposals :: "string \<rightharpoonup> match_proposal"
  channelMembers :: "string \<rightharpoonup> string list"
  reputation :: "string \<rightharpoonup> reputation_entry"
  stats :: stats_rec

text \<open>The contract's initial state.\<close>

definition initial_state :: view where
  "initial_state =
     \<lparr>agents = [], capabilityIndex = Map.empty, matchRequests = Map.empty,
      matchProposals = Map.empty, channelMembers = Map.empty, reputation = Map.empty,
      stats = \<lparr>totalAgents = 0, totalMatches = 0, successfulMatches = 0,
               totalChannels = 0, totalMessages = 0\<rparr>\<rparr>"

record call_context =
  writer :: string
  timestamp :: int

subsection \<open>Payloads\<close>

record capability_input =
  ci_name :: string
  ci_proficiency :: "real option"
  ci_certified :: "bool option"

record register_payload =
  rp_name :: string
  rp_description :: "string option"
  rp_capabilities :: "capability_input list option"
  rp_protocol :: "string option"
  rp_visibility :: "string option"
  rp_endpoint :: "string option"

record update_payload =
  up_status :: "string option"
  up_capabilities :: "capability_input list option"
  up_visibility :: "string option"
  up_endpoint :: "string option"

record create_payload =
  cp_requiredCapabilities :: "string list option"
  cp_minScore :: "real option"
  cp_taskDescription :: "string option"
  cp_ttl :: "int option"
  cp_preferredProtocols :: "string list option"

record propose_payload =
  pp_matchId :: string
  pp_score :: real
  pp_matchedCapabilities :: "string list"

record accept_payload =
  ap_matchId :: string
  ap_proposerId :: string

record complete_payload =
  cm_matchId :: string
  cm_success :: "bool option"
  cm_rating :: "real option"
  cm_feedback :: "string option"

datatype event =
    AgentRegistered string agent
  | AgentUpdated string update_payload
  | AgentUnregistered string
  | MatchRequestCreated string match_request
  | MatchProposed string match_proposal
  | MatchAccepted string string string string
  | MatchCompleted string bool "real option"
  | ChannelJoined string string
  | ChannelLeft string string

text \<open>The errors the handlers throw, named after the spec's taxonomy; the message of the
  source is given with each.\<close>

datatype error =
    NameRequired            \<comment> \<open>\<^verbatim>\<open>Agent name is required\<close>\<close>
  | DuplicateName           \<comment> \<open>\<^verbatim>\<open>Agent name already registered\<close>\<close>
  | NotRegistered           \<comment> \<open>\<^verbatim>\<open>Agent not registered\<close>\<close>
  | EmptyCapabilitySet      \<comment> \<open>\<^verbatim>\<open>At least one required capability is needed\<close>\<close>
  | RequestNotFound         \<comment> \<open>\<^verbatim>\<open>Match request not found\<close>\<close>
  | RequestExpired          \<comment> \<open>\<^verbatim>\<open>Match request expired\<close>\<close>
  | RequestNotPending       \<comment> \<open>\<^verbatim>\<open>Match request no longer pending\<close>\<close>
  | ProposerNotRegistered   \<comment> \<open>\<^verbatim>\<open>Proposer agent not registered\<close>\<close>
  | Unauthorized            \<comment> \<open>\<^verbatim>\<open>Only the request creator can accept proposals\<close>\<close>
  | ProposalNotFound        \<comment> \<open>\<^verbatim>\<open>Proposal not found\<close>\<close>

subsection \<open>Programs over the caller's state object\<close>

text \<open>
  A handler receives the state object of its caller. A \<^verbatim>\<open>throw\<close> ends it with the object as
  the writes made so far have left it; a \<^verbatim>\<open>return\<close> hands back the new state. The second
  component of a run is the caller's object after the run: a write through a reference shared
  with the caller (\<^verbatim>\<open>newState.agents[id] = ...\<close> after \<^verbatim>\<open>newState = { ...state }\<close>) is
  \<open>modifyS\<close>, a write to a fresh copy is local to the returned state.
\<close>

type_synonym 'a prog = "view \<Rightarrow> (error + 'a) \<times> view"

definition returnE :: "'a \<Rightarrow> 'a prog" where
  "returnE x = (\<lambda>s. (Inr x, s))"

definition throwE :: "error \<Rightarrow> 'a prog" where
  "throwE e = (\<lambda>s. (Inl e, s))"

definition getS :: "view prog" where
  "getS = (\<lambda>s. (Inr s, s))"

definition modifyS :: "(view \<Rightarrow> view) \<Rightarrow> unit prog" where
  "modifyS f = (\<lambda>s. (Inr (), f s))"

definition bindE :: "'a prog \<Rightarrow> ('a \<Rightarrow> 'b prog) \<Rightarrow> 'b prog" where
  "bindE m f = (\<lambda>s. case m s of (Inl e, s') \<Rightarrow> (Inl e, s') | (Inr x, s') \<Rightarrow> f x s')"

definition thenE :: "unit prog \<Rightarrow> 'b prog \<Rightarrow> 'b prog" where
  "thenE m k = bindE m (\<lambda>_. k)"

definition throw_if :: "bool \<Rightarrow> error \<Rightarrow> unit prog" where
  "throw_if b e = (if b then throwE e else returnE ())"

type_synonym handler_result = "(error + view \<times> event option) \<times> view"

subsection \<open>Agent handlers\<close>

text \<open>\<^verbatim>\<open>Math.min(1, Math.max(0, cap.proficiency || 0.5))\<close>: an absent proficiency and the
  number 0 are both falsy and take the default.\<close>

definition stored_proficiency :: "real option \<Rightarrow> real" where
  "stored_proficiency p =
     min 1 (max 0 (case p of None \<Rightarrow> 0.5 | Some x \<Rightarrow> if x = 0 then 0.5 else x))"

definition certified_flag :: "bool option \<Rightarrow> bool" where
  "certified_flag c = (case c of None \<Rightarrow> False | Some b \<Rightarrow> b)"

text \<open>The capability objects built by \<^verbatim>\<open>agent_register\<close> and by \<^verbatim>\<open>agent_update\<close>; the latter
  leaves \<^verbatim>\<open>certifiedBy\<close> and \<^verbatim>\<open>certifiedAt\<close> out.\<close>

definition register_capability :: "call_context \<Rightarrow> capability_input \<Rightarrow> capability" where
  "register_capability c cap =
     \<lparr>cap_name = ci_name cap,
      cap_proficiency = stored_proficiency (ci_proficiency cap),
      cap_certified = certified_flag (ci_certified cap),
      cap_certifiedBy = (if ci_certified cap = Some True then Some (writer c) else None),
      cap_certifiedAt = (if ci_certified cap = Some True then Some (timestamp c) else None)\<rparr>"

definition update_capability :: "capability_input \<Rightarrow> capability" where
  "update_capability cap =
     \<lparr>cap_name = ci_name cap,
      cap_proficiency = stored_proficiency (ci_proficiency cap),
      cap_certified = certified_flag (ci_certified cap),
      cap_certifiedBy = None,
      cap_certifiedAt = None\<rparr>"

text \<open>One round of the loop that adds the agent to the index: create the entry if it is
  missing, push the id if it is not included.\<close>

definition index_add :: "string \<Rightarrow> (string \<rightharpoonup> string list) \<Rightarrow> string \<Rightarrow> (string \<rightharpoonup> string list)" where
  "index_add agentId idx capName =
     idx(capName \<mapsto> push_if_absent (case idx capName of None \<Rightarrow> [] | Some ids \<Rightarrow> ids) agentId)"

text \<open>One round of the loop that removes the agent from the index:
  \<^verbatim>\<open>idx = index[name]?.indexOf(agentId); if (idx > -1) index[name].splice(idx, 1)\<close> removes the
  first occurrence, in the array itself.\<close>

definition index_remove :: "string \<Rightarrow> (string \<rightharpoonup> string list) \<Rightarrow> string \<Rightarrow> (string \<rightharpoonup> string list)" where
  "index_remove agentId idx capName =
     (case idx capName of None \<Rightarrow> idx | Some ids \<Rightarrow> idx(capName \<mapsto> remove1 agentId ids))"

text \<open>The profile \<^verbatim>\<open>agent_register\<close> creates.\<close>

definition new_agent :: "register_payload \<Rightarrow> call_context \<Rightarrow> agent" where
  "new_agent payload c =
     \<lparr>a_id = writer c,
      a_name = rp_name payload,
      a_description = (case rp_description payload of None \<Rightarrow> [] | Some d \<Rightarrow> d),
      a_capabilities = map (register_capability c)
                         (case rp_capabilities payload of None \<Rightarrow> [] | Some cs \<Rightarrow> cs),
      a_protocol = (case rp_protocol payload of None \<Rightarrow> ''intercom'' | Some p \<Rightarrow> p),
      a_visibility = (case rp_visibility payload of None \<Rightarrow> ''public'' | Some v \<Rightarrow> v),
      a_endpoint = (if truthy_str (rp_endpoint payload) then rp_endpoint payload else None),
      a_status = ''online'',
      a_createdAt = timestamp c,
      a_updatedAt = timestamp c,
      a_matchCount = 0,
      a_successCount = 0\<rparr>"

definition agent_register :: "view \<Rightarrow> register_payload \<Rightarrow> call_context \<Rightarrow> handler_result" where
  "agent_register state payload c =
     (let name = rp_name payload;
          capabilities = (case rp_capabilities payload of None \<Rightarrow> [] | Some cs \<Rightarrow> cs);
          agentId = writer c;
          agent = new_agent payload c
      in
      thenE (throw_if (name = []) NameRequired)
     (thenE (throw_if (\<exists>a \<in> set (map snd (agents state)). a_name a = name) DuplicateName)
     (thenE (modifyS (\<lambda>s. s\<lparr>agents := AList.update agentId agent (agents s)\<rparr>))
     (thenE (modifyS (\<lambda>s. s\<lparr>capabilityIndex :=
                fold (\<lambda>cap idx. index_add agentId idx (ci_name cap)) capabilities (capabilityIndex s)\<rparr>))
     (bindE getS (\<lambda>newState.
        returnE (newState\<lparr>stats := (stats state)\<lparr>totalAgents := totalAgents (stats state) + 1\<rparr>\<rparr>,
                 Some (AgentRegistered agentId agent)))))))) state"

text \<open>
  In \<^verbatim>\<open>agent_update\<close> the removal loop works on the arrays of the caller's index; the copy
  \<^verbatim>\<open>{ ...state.capabilityIndex }\<close> made afterwards holds the same arrays, so it sees the
  removals. Of the additions, the pushes onto arrays that the caller's index already holds
  are shared; the entries created for new names exist in the copy only.
\<close>

text \<open>The profile \<^verbatim>\<open>agent_update\<close> writes back: a copy of the existing one with the fields the
  payload gives, in the order of the source.\<close>

definition updated_agent :: "agent \<Rightarrow> update_payload \<Rightarrow> call_context \<Rightarrow> agent" where
  "updated_agent existingAgent payload c =
     (let a1 = (case up_status payload of
                  None \<Rightarrow> existingAgent
                | Some st \<Rightarrow> if st \<noteq> [] \<and> st \<in> set [''online'', ''offline'', ''busy'']
                            then existingAgent\<lparr>a_status := st\<rparr> else existingAgent);
          a2 = (case up_capabilities payload of
                  None \<Rightarrow> a1
                | Some caps \<Rightarrow> a1\<lparr>a_capabilities := map update_capability caps\<rparr>);
          a3 = (case up_visibility payload of
                  None \<Rightarrow> a2
                | Some v \<Rightarrow> if v \<noteq> [] \<and> v \<in> set [''public'', ''private'']
                           then a2\<lparr>a_visibility := v\<rparr> else a2);
          a4 = (case up_endpoint payload of
                  None \<Rightarrow> a3
                | Some e \<Rightarrow> a3\<lparr>a_endpoint := Some e\<rparr>)
      in a4\<lparr>a_updatedAt := timestamp c\<rparr>)"

definition agent_update :: "view \<Rightarrow> update_payload \<Rightarrow> call_context \<Rightarrow> handler_result" where
  "agent_update state payload c =
     (let agentId = writer c in
      case map_of (agents state) agentId of
        None \<Rightarrow> throwE NotRegistered
      | Some existingAgent \<Rightarrow>
          (let updatedAgent = updated_agent existingAgent payload c
           in
           bindE
             (case up_capabilities payload of
                None \<Rightarrow> bindE getS (\<lambda>s. returnE (capabilityIndex s))
              | Some caps \<Rightarrow>
                  thenE (modifyS (\<lambda>s. s\<lparr>capabilityIndex :=
                           fold (\<lambda>cap idx. index_remove agentId idx (cap_name cap))
                                (a_capabilities existingAgent) (capabilityIndex s)\<rparr>))
                 (bindE getS (\<lambda>s.
                    let newIndex = fold (\<lambda>cap idx. index_add agentId idx (ci_name cap)) caps
                                        (capabilityIndex s)
                    in thenE (modifyS (\<lambda>s'. s'\<lparr>capabilityIndex :=
                                (\<lambda>k. case capabilityIndex s k of None \<Rightarrow> None | Some _ \<Rightarrow> newIndex k)\<rparr>))
                             (returnE newIndex))))
             (\<lambda>newIndex.
                thenE (modifyS (\<lambda>s. s\<lparr>agents := AList.update agentId updatedAgent (agents s)\<rparr>))
               (bindE getS (\<lambda>newState.
                  returnE (newState\<lparr>capabilityIndex := newIndex\<rparr>,
                           Some (AgentUpdated agentId payload))))))) state"

definition agent_unregister :: "view \<Rightarrow> call_context \<Rightarrow> handler_result" where
  "agent_unregister state c =
     (let agentId = writer c in
      case map_of (agents state) agentId of
        None \<Rightarrow> throwE NotRegistered
      | Some existingAgent \<Rightarrow>
          thenE (modifyS (\<lambda>s. s\<lparr>capabilityIndex :=
                   fold (\<lambda>cap idx. index_remove agentId idx (cap_name cap))
                        (a_capabilities existingAgent) (capabilityIndex s)\<rparr>))
         (thenE (modifyS (\<lambda>s. s\<lparr>agents := AList.delete agentId (agents s)\<rparr>))
         (bindE getS (\<lambda>newState.
            returnE (newState\<lparr>stats := (stats state)\<lparr>totalAgents := totalAgents (stats state) - 1\<rparr>\<rparr>,
                     Some (AgentUnregistered agentId)))))) state"

subsection \<open>Match handlers\<close>

text \<open>These handlers replace \<^verbatim>\<open>matchRequests\<close>, \<^verbatim>\<open>matchProposals\<close>, \<^verbatim>\<open>agents\<close> and \<^verbatim>\<open>stats\<close> by fresh
  copies before they assign into them, so the caller's objects are not written.\<close>

definition match_create :: "view \<Rightarrow> create_payload \<Rightarrow> call_context \<Rightarrow> handler_result" where
  "match_create state payload c =
     (let requiredCapabilities = (case cp_requiredCapabilities payload of None \<Rightarrow> [] | Some cs \<Rightarrow> cs);
          minScore = (case cp_minScore payload of None \<Rightarrow> 0.5 | Some m \<Rightarrow> m);
          ttl = (case cp_ttl payload of None \<Rightarrow> 300 | Some t \<Rightarrow> t);
          preferredProtocols = (case cp_preferredProtocols payload of None \<Rightarrow> [] | Some ps \<Rightarrow> ps)
      in
      thenE (throw_if (length requiredCapabilities = 0) EmptyCapabilitySet)
        (let matchId = ''match-'' @ take 8 (writer c) @ ''-'' @ js_int_to_string (timestamp c);
             expiresAt = timestamp c + (ttl * 1000);
             request = \<lparr>r_id = matchId,
                        r_requesterId = writer c,
                        r_requiredCapabilities = requiredCapabilities,
                        r_minScore = minScore,
                        r_taskDescription = (case cp_taskDescription payload of None \<Rightarrow> [] | Some d \<Rightarrow> d),
                        r_preferredProtocols = preferredProtocols,
                        r_expiresAt = expiresAt,
                        r_createdAt = timestamp c,
                        r_status = Pending,
                        r_acceptedWith = None, r_acceptedAt = None, r_completedAt = None,
                        r_success = None, r_rating = None, r_feedback = None\<rparr>
         in returnE (state\<lparr>matchRequests := (matchRequests state)(matchId \<mapsto> request),
                           stats := (stats state)\<lparr>totalMatches := totalMatches (stats state) + 1\<rparr>\<rparr>,
                     Some (MatchRequestCreated matchId request)))) state"

definition match_propose :: "view \<Rightarrow> propose_payload \<Rightarrow> call_context \<Rightarrow> handler_result" where
  "match_propose state payload c =
     (let matchId = pp_matchId payload in
      case matchRequests state matchId of
        None \<Rightarrow> throwE RequestNotFound
      | Some request \<Rightarrow>
          thenE (throw_if (timestamp c > r_expiresAt request) RequestExpired)
         (thenE (throw_if (r_status request \<noteq> Pending) RequestNotPending)
         (case map_of (agents state) (writer c) of
            None \<Rightarrow> throwE ProposerNotRegistered
          | Some proposerAgent \<Rightarrow>
              (let proposal = \<lparr>mp_matchId = matchId,
                               mp_proposerId = writer c,
                               mp_score = min 1 (max 0 (pp_score payload)),
                               mp_matchedCapabilities = pp_matchedCapabilities payload,
                               mp_proposedAt = timestamp c,
                               mp_status = Proposed\<rparr>
               in returnE (state\<lparr>matchProposals :=
                                   (matchProposals state)(matchId @ ''-'' @ writer c \<mapsto> proposal)\<rparr>,
                           Some (MatchProposed matchId proposal)))))) state"

definition match_accept :: "view \<Rightarrow> accept_payload \<Rightarrow> call_context \<Rightarrow> handler_result" where
  "match_accept state payload c =
     (let matchId = ap_matchId payload; proposerId = ap_proposerId payload in
      case matchRequests state matchId of
        None \<Rightarrow> throwE RequestNotFound
      | Some request \<Rightarrow>
          thenE (throw_if (r_requesterId request \<noteq> writer c) Unauthorized)
            (let proposalKey = matchId @ ''-'' @ proposerId in
             case matchProposals state proposalKey of
               None \<Rightarrow> throwE ProposalNotFound
             | Some proposal \<Rightarrow>
                 (let requester = map_of (agents state) (writer c);
                      proposer = map_of (agents state) proposerId;
                      agents1 = (case requester of
                                   None \<Rightarrow> agents state
                                 | Some r \<Rightarrow> AList.update (writer c)
                                              (r\<lparr>a_matchCount := a_matchCount r + 1\<rparr>) (agents state));
                      agents2 = (case proposer of
                                   None \<Rightarrow> agents1
                                 | Some p \<Rightarrow> AList.update proposerId
                                              (p\<lparr>a_matchCount := a_matchCount p + 1\<rparr>) agents1)
                  in returnE
                       (state\<lparr>matchRequests := (matchRequests state)(matchId \<mapsto>
                                 request\<lparr>r_status := Accepted,
                                         r_acceptedWith := Some proposerId,
                                         r_acceptedAt := Some (timestamp c)\<rparr>),
                              matchProposals := (matchProposals state)(proposalKey \<mapsto>
                                 proposal\<lparr>mp_status := ProposalAccepted\<rparr>),
                              agents := agents2\<rparr>,
                        Some (MatchAccepted matchId (writer c) proposerId (''match-'' @ matchId)))))) state"

text \<open>
  \<^verbatim>\<open>match_complete\<close> copies the reputation map one level deep, so an entry that exists already is
  the caller's own object and the push onto its \<^verbatim>\<open>ratings\<close> is shared; an entry created here is
  local. The average is \<^verbatim>\<open>ratings.reduce((sum, r) => sum + r.rating, 0) / totalRatings\<close> after
  the increment of \<^verbatim>\<open>totalRatings\<close>.
\<close>

definition rate :: "reputation_entry \<Rightarrow> rating_entry \<Rightarrow> reputation_entry" where
  "rate rep entry =
     (let ratings' = ratings rep @ [entry];
          totalRatings' = totalRatings rep + 1
      in \<lparr>totalRatings = totalRatings',
          averageRating = fold (\<lambda>r sum. sum + rt_rating r) ratings' 0 / real_of_int totalRatings',
          ratings = ratings'\<rparr>)"

definition match_complete :: "view \<Rightarrow> complete_payload \<Rightarrow> call_context \<Rightarrow> handler_result" where
  "match_complete state payload c =
     (let matchId = cm_matchId payload;
          success = (case cm_success payload of None \<Rightarrow> True | Some b \<Rightarrow> b);
          rating = cm_rating payload
      in
      case matchRequests state matchId of
        None \<Rightarrow> throwE RequestNotFound
      | Some request \<Rightarrow>
          (let requests' = (matchRequests state)(matchId \<mapsto>
                              request\<lparr>r_status := Completed,
                                      r_completedAt := Some (timestamp c),
                                      r_success := Some success,
                                      r_rating := rating,
                                      r_feedback := cm_feedback payload\<rparr>);
               stats' = (if success
                         then (stats state)\<lparr>successfulMatches := successfulMatches (stats state) + 1\<rparr>
                         else stats state);
               ev = Some (MatchCompleted matchId success rating)
           in
           case (rating, r_acceptedWith request) of
             (Some rt, Some acceptedWith) \<Rightarrow>
               if rt \<noteq> 0 \<and> acceptedWith \<noteq> [] then
                 (let targetId = (if writer c = r_requesterId request then acceptedWith
                                  else r_requesterId request);
                      rep = (case reputation state targetId of
                               None \<Rightarrow> \<lparr>totalRatings = 0, averageRating = 0, ratings = []\<rparr>
                             | Some r \<Rightarrow> r);
                      rep' = rate rep \<lparr>rt_rating = rt, rt_from = writer c, rt_matchId = matchId,
                                       rt_timestamp = timestamp c\<rparr>;
                      agents' = (case map_of (agents state) targetId of
                                   None \<Rightarrow> agents state
                                 | Some a \<Rightarrow> if success
                                             then AList.update targetId
                                                    (a\<lparr>a_successCount := a_successCount a + 1\<rparr>) (agents state)
                                             else agents state)
                  in
                  thenE (modifyS (\<lambda>s. if reputation s targetId = None then s
                                       else s\<lparr>reputation := (reputation s)(targetId \<mapsto> rep')\<rparr>))
                        (returnE (state\<lparr>matchRequests := requests', stats := stats',
                                        reputation := (reputation state)(targetId \<mapsto> rep'),
                                        agents := agents'\<rparr>, ev)))
               else returnE (state\<lparr>matchRequests := requests', stats := stats'\<rparr>, ev)
           | _ \<Rightarrow> returnE (state\<lparr>matchRequests := requests', stats := stats'\<rparr>, ev))) state"

subsection \<open>Channel and message handlers\<close>

definition channel_join :: "view \<Rightarrow> string \<Rightarrow> call_context \<Rightarrow> handler_result" where
  "channel_join state channelId c =
     (case map_of (agents state) (writer c) of
        None \<Rightarrow> throwE NotRegistered
      | Some agent \<Rightarrow>
          (case channelMembers state channelId of
             None \<Rightarrow>
               returnE (state\<lparr>channelMembers := (channelMembers state)(channelId \<mapsto> [writer c]),
                              stats := (stats state)\<lparr>totalChannels := totalChannels (stats state) + 1\<rparr>\<rparr>,
                        Some (ChannelJoined channelId (writer c)))
           | Some members \<Rightarrow>
               thenE (modifyS (\<lambda>s. s\<lparr>channelMembers :=
                        (channelMembers s)(channelId \<mapsto> push_if_absent members (writer c))\<rparr>))
                     (returnE (state\<lparr>channelMembers :=
                                  (channelMembers state)(channelId \<mapsto> push_if_absent members (writer c))\<rparr>,
                               Some (ChannelJoined channelId (writer c)))))) state"

definition channel_leave :: "view \<Rightarrow> string \<Rightarrow> call_context \<Rightarrow> handler_result" where
  "channel_leave state channelId c =
     (case channelMembers state channelId of
        None \<Rightarrow> returnE (state, Some (ChannelLeft channelId (writer c)))
      | Some members \<Rightarrow>
          thenE (modifyS (\<lambda>s. s\<lparr>channelMembers :=
                   (channelMembers s)(channelId \<mapsto> remove1 (writer c) members)\<rparr>))
                (returnE (state\<lparr>channelMembers :=
                             (channelMembers state)(channelId \<mapsto> remove1 (writer c) members)\<rparr>,
                          Some (ChannelLeft channelId (writer c))))) state"

definition message_record :: "view \<Rightarrow> call_context \<Rightarrow> handler_result" where
  "message_record state c =
     returnE (state\<lparr>stats := (stats state)\<lparr>totalMessages := totalMessages (stats state) + 1\<rparr>\<rparr>,
              None) state"

subsection \<open>The command table\<close>

datatype command =
    AgentRegister register_payload
  | AgentUpdate update_payload
  | AgentUnregister
  | MatchCreate create_payload
  | MatchPropose propose_payload
  | MatchAccept accept_payload
  | MatchComplete complete_payload
  | ChannelJoin string
  | ChannelLeave string
  | MessageRecord

fun run_handler :: "view \<Rightarrow> command \<Rightarrow> call_context \<Rightarrow> handler_result" where
  "run_handler state (AgentRegister p) c = agent_register state p c"
| "run_handler state (AgentUpdate p) c = agent_update state p c"
| "run_handler state AgentUnregister c = agent_unregister state c"
| "run_handler state (MatchCreate p) c = match_create state p c"
| "run_handler state (MatchPropose p) c = match_propose state p c"
| "run_handler state (MatchAccept p) c = match_accept state p c"
| "run_handler state (MatchComplete p) c = match_complete state p c"
| "run_handler state (ChannelJoin ch) c = channel_join state ch c"
| "run_handler state (ChannelLeave ch) c = channel_leave state ch c"
| "run_handler state MessageRecord c = message_record state c"

text \<open>The host that calls the handlers is not part of the contract. It is taken to keep, after
  a command, the state the handler returned, or, when the handler threw, the state object it
  passed in, as the throw left it.\<close>

definition view_after :: "handler_result \<Rightarrow> view" where
  "view_after r = (case r of (Inl e, s) \<Rightarrow> s | (Inr (s', ev), s) \<Rightarrow> s')"

fun run_commands :: "view \<Rightarrow> (command \<times> call_context) list \<Rightarrow> view" where
  "run_commands state [] = state"
| "run_commands state ((cmd, c) # rest) = run_commands (view_after (run_handler state cmd c)) rest"

subsection \<open>The discover reader\<close>

record discover_params =
  dp_capabilities :: "string list option"
  dp_categories :: "string list option"
  dp_minProficiency :: "real option"
  dp_status :: "string option"
  dp_limit :: "int option"

record discovered =
  d_id :: string
  d_name :: string
  d_description :: string
  d_status :: string
  d_protocol :: string
  d_capabilities :: "capability list"
  d_matchedCapabilities :: "string list"
  d_matchScore :: real
  d_reputation :: "reputation_entry option"

record discover_response =
  dr_agents :: "discovered list"
  dr_total :: nat

text \<open>The ids collected in \<^verbatim>\<open>matchingAgentIds\<close>, a \<^verbatim>\<open>Set\<close>, in insertion order.\<close>

definition matching_agent_ids :: "view \<Rightarrow> string list \<Rightarrow> string list" where
  "matching_agent_ids state capabilities =
     (let fromIndex = fold (\<lambda>capName ids.
                         fold (\<lambda>i acc. push_if_absent acc i)
                              (case capabilityIndex state capName of None \<Rightarrow> [] | Some l \<Rightarrow> l) ids)
                       capabilities []
      in if length capabilities = 0
         then fold (\<lambda>a acc. push_if_absent acc (a_id a))
                   (filter (\<lambda>a. a_visibility a = ''public'') (map snd (agents state))) fromIndex
         else fromIndex)"

text \<open>The body of the loop over \<^verbatim>\<open>matchingAgentIds\<close>: the result pushed for one id, if any.
  The block on \<^verbatim>\<open>categories\<close> is empty in the source.\<close>

definition score_candidate ::
  "view \<Rightarrow> string list \<Rightarrow> real \<Rightarrow> string option \<Rightarrow> string \<Rightarrow> discovered list" where
  "score_candidate state capabilities minProficiency status agentId =
     (case map_of (agents state) agentId of
        None \<Rightarrow> []
      | Some agent \<Rightarrow>
          if a_visibility agent \<noteq> ''public'' then []
          else if truthy_str status \<and> Some (a_status agent) \<noteq> status then []
          else
            (let matched = filter (\<lambda>cap. cap_name cap \<in> set capabilities
                                         \<and> cap_proficiency cap \<ge> minProficiency)
                                  (a_capabilities agent);
                 matchedCapabilities = map cap_name matched;
                 totalScore = fold (\<lambda>cap t. t + cap_proficiency cap) matched 0;
                 matchScore = (if length capabilities > 0
                               then totalScore / real (length capabilities) else 0.5)
             in if length matchedCapabilities > 0 \<or> length capabilities = 0
                then [\<lparr>d_id = a_id agent, d_name = a_name agent,
                       d_description = a_description agent, d_status = a_status agent,
                       d_protocol = a_protocol agent, d_capabilities = a_capabilities agent,
                       d_matchedCapabilities = matchedCapabilities, d_matchScore = matchScore,
                       d_reputation = reputation state agentId\<rparr>]
                else []))"

text \<open>\<^verbatim>\<open>results\<close> after \<^verbatim>\<open>results.sort((a, b) => b.matchScore - a.matchScore)\<close>, a stable sort.\<close>

definition discover_results :: "view \<Rightarrow> discover_params \<Rightarrow> discovered list" where
  "discover_results state params =
     (let capabilities = (case dp_capabilities params of None \<Rightarrow> [] | Some cs \<Rightarrow> cs);
          minProficiency = (case dp_minProficiency params of None \<Rightarrow> 0 | Some m \<Rightarrow> m)
      in sort_key (\<lambda>r. - d_matchScore r)
           (concat (map (score_candidate state capabilities minProficiency (dp_status params))
                        (matching_agent_ids state capabilities))))"

definition discover :: "view \<Rightarrow> discover_params \<Rightarrow> discover_response" where
  "discover state params =
     (let limit = (case dp_limit params of None \<Rightarrow> 20 | Some l \<Rightarrow> l);
          results = discover_results state params
      in \<lparr>dr_agents = js_slice0 results limit, dr_total = length results\<rparr>)"

section \<open>Specification vocabulary\<close>

text \<open>What a run threw, if it threw.\<close>

definition thrown :: "handler_result \<Rightarrow> error option" where
  "thrown r = (case fst r of Inl e \<Rightarrow> Some e | Inr _ \<Rightarrow> None)"

text \<open>The ids listed in the index under a capability name, and the names an agent lists.\<close>

definition ids_under :: "(string \<rightharpoonup> string list) \<Rightarrow> string \<Rightarrow> string list" where
  "ids_under idx capName = (case idx capName of None \<Rightarrow> [] | Some ids \<Rightarrow> ids)"

definition index_entry :: "view \<Rightarrow> string \<Rightarrow> string list" where
  "index_entry v capName = ids_under (capabilityIndex v) capName"

definition capability_names :: "agent \<Rightarrow> string list" where
  "capability_names a = map cap_name (a_capabilities a)"

text \<open>Index consistency as the spec states it: for every agent of the view and every
  capability name, the agent's id is in the index entry of the name exactly when the agent
  lists the name.\<close>

definition index_consistent :: "view \<Rightarrow> bool" where
  "index_consistent v =
     (\<forall>a \<in> set (map snd (agents v)). \<forall>capName.
        a_id a \<in> set (index_entry v capName) \<longleftrightarrow> capName \<in> set (capability_names a))"

text \<open>The registry holds one entry per identity, filed under the agent's id.\<close>

definition agents_wf :: "view \<Rightarrow> bool" where
  "agents_wf v = (distinct (map fst (agents v)) \<and> (\<forall>(k, a) \<in> set (agents v). a_id a = k))"

text \<open>An index entry lists no id twice.\<close>

definition index_distinct :: "view \<Rightarrow> bool" where
  "index_distinct v = (\<forall>capName. distinct (index_entry v capName))"

text \<open>The index in lockstep with the registry: an id is listed under a name exactly when
  the agent registered under that id lists the name.\<close>

definition index_exact :: "view \<Rightarrow> bool" where
  "index_exact v =
     (\<forall>capName i. i \<in> set (index_entry v capName) \<longleftrightarrow>
        (\<exists>a. map_of (agents v) i = Some a \<and> capName \<in> set (capability_names a)))"

definition view_ok :: "view \<Rightarrow> bool" where
  "view_ok v = (agents_wf v \<and> index_distinct v \<and> index_exact v)"

text \<open>The ratings recorded for an agent, none if it has no reputation entry.\<close>

definition ratings_of :: "view \<Rightarrow> string \<Rightarrow> rating_entry list" where
  "ratings_of v agentId = (case reputation v agentId of None \<Rightarrow> [] | Some rep \<Rightarrow> ratings rep)"


subsection \<open>Concrete commands and views\<close>

definition ctx_of :: "string \<Rightarrow> int \<Rightarrow> call_context" where
  "ctx_of w t = \<lparr>writer = w, timestamp = t\<rparr>"

definition cap_in :: "string \<Rightarrow> real option \<Rightarrow> capability_input" where
  "cap_in n p = \<lparr>ci_name = n, ci_proficiency = p, ci_certified = None\<rparr>"

definition register_as :: "string \<Rightarrow> capability_input list \<Rightarrow> command" where
  "register_as n caps =
     AgentRegister \<lparr>rp_name = n, rp_description = None, rp_capabilities = Some caps,
                    rp_protocol = None, rp_visibility = None, rp_endpoint = None\<rparr>"

definition create_for :: "string list \<Rightarrow> int option \<Rightarrow> create_payload" where
  "create_for caps ttl =
     \<lparr>cp_requiredCapabilities = Some caps, cp_minScore = None, cp_taskDescription = None,
      cp_ttl = ttl, cp_preferredProtocols = None\<rparr>"

definition propose_on :: "string \<Rightarrow> propose_payload" where
  "propose_on m = \<lparr>pp_matchId = m, pp_score = 0.8, pp_matchedCapabilities = [''x'']\<rparr>"

definition accept_of :: "string \<Rightarrow> string \<Rightarrow> accept_payload" where
  "accept_of m p = \<lparr>ap_matchId = m, ap_proposerId = p\<rparr>"

definition complete_with :: "string \<Rightarrow> real option \<Rightarrow> complete_payload" where
  "complete_with m r = \<lparr>cm_matchId = m, cm_success = None, cm_rating = r, cm_feedback = None\<rparr>"

text \<open>The writer W registers as ``a'' with capability x, then registers again as ``b'' with
  capability y.\<close>

definition reregistered_view :: view where
  "reregistered_view =
     run_commands initial_state
       [(register_as ''a'' [cap_in ''x'' None], ctx_of ''W'' 1),
        (register_as ''b'' [cap_in ''y'' None], ctx_of ''W'' 2)]"

text \<open>R and P register, R creates a request at time 1000 with the default ttl.\<close>

definition pending_view :: view where
  "pending_view =
     run_commands initial_state
       [(register_as ''r'' [], ctx_of ''R'' 1),
        (register_as ''p'' [], ctx_of ''P'' 2),
        (MatchCreate (create_for [''x''] None), ctx_of ''R'' 1000)]"

definition pending_request :: match_request where
  "pending_request =
     \<lparr>r_id = ''match-R-1000'', r_requesterId = ''R'', r_requiredCapabilities = [''x''],
      r_minScore = 0.5, r_taskDescription = [], r_preferredProtocols = [],
      r_expiresAt = 301000, r_createdAt = 1000, r_status = Pending,
      r_acceptedWith = None, r_acceptedAt = None, r_completedAt = None,
      r_success = None, r_rating = None, r_feedback = None\<rparr>"

text \<open>Then P proposes at time 2000 and R accepts P's proposal at time 3000.\<close>

definition accepted_view :: view where
  "accepted_view =
     run_commands pending_view
       [(MatchPropose (propose_on ''match-R-1000''), ctx_of ''P'' 2000),
        (MatchAccept (accept_of ''match-R-1000'' ''P''), ctx_of ''R'' 3000)]"

text \<open>A registers with capabilities x (0.6) and y (0.3), B with capability x (0.8).\<close>

definition two_agent_view :: view where
  "two_agent_view =
     run_commands initial_state
       [(register_as ''a'' [cap_in ''x'' (Some 0.6), cap_in ''y'' (Some 0.3)], ctx_of ''A'' 1),
        (register_as ''b'' [cap_in ''x'' (Some 0.8)], ctx_of ''B'' 2)]"

text \<open>The query for capabilities x and y with a limit of one agent, and the query with no
  filter at all.\<close>

definition query_xy :: "real \<Rightarrow> discover_params" where
  "query_xy m =
     \<lparr>dp_capabilities = Some [''x'', ''y''], dp_categories = None, dp_minProficiency = Some m,
      dp_status = None, dp_limit = Some 1\<rparr>"

definition browse_all :: discover_params where
  "browse_all =
     \<lparr>dp_capabilities = None, dp_categories = None, dp_minProficiency = None,
      dp_status = None, dp_limit = None\<rparr>"

text \<open>The result \<^verbatim>\<open>discover\<close> builds for an agent when no capability is requested.\<close>

definition browse_result :: "view \<Rightarrow> agent \<Rightarrow> discovered" where
  "browse_result v a =
     \<lparr>d_id = a_id a, d_name = a_name a, d_description = a_description a, d_status = a_status a,
      d_protocol = a_protocol a, d_capabilities = a_capabilities a, d_matchedCapabilities = [],
      d_matchScore = 0.5, d_reputation = reputation v (a_id a)\<rparr>"

text \<open>The agents an unfiltered query is to return: public, and of the requested status if
  one is requested.\<close>

definition browsable :: "string option \<Rightarrow> agent \<Rightarrow> bool" where
  "browsable status a =
     (a_visibility a = ''public'' \<and> (if truthy_str status then Some (a_status a) = status else True))"


text \<open>After R has accepted P's proposal, S, who has no agent entry and is neither R nor P,
  completes the match with rating 4.\<close>

definition completed_view :: view where
  "completed_view =
     run_commands accepted_view
       [(MatchComplete (complete_with ''match-R-1000'' (Some 4)), ctx_of ''S'' 5000)]"

section \<open>Errors precede writes\<close>

lemmas prog_defs = thenE_def bindE_def throw_if_def throwE_def returnE_def modifyS_def getS_def

lemma agent_register_throw: "thrown (agent_register state p c) \<noteq> None \<Longrightarrow> snd (agent_register state p c) = state"
  by (auto simp: thrown_def agent_register_def prog_defs Let_def split: option.splits if_splits)

lemma agent_update_throw: "thrown (agent_update state p c) \<noteq> None \<Longrightarrow> snd (agent_update state p c) = state"
  by (auto simp: thrown_def agent_update_def prog_defs Let_def split: option.splits if_splits)

lemma agent_unregister_throw: "thrown (agent_unregister state c) \<noteq> None \<Longrightarrow> snd (agent_unregister state c) = state"
  by (auto simp: thrown_def agent_unregister_def prog_defs Let_def split: option.splits if_splits)

lemma match_create_throw: "thrown (match_create state p c) \<noteq> None \<Longrightarrow> snd (match_create state p c) = state"
  by (auto simp: thrown_def match_create_def prog_defs Let_def split: option.splits if_splits)

lemma match_propose_throw: "thrown (match_propose state p c) \<noteq> None \<Longrightarrow> snd (match_propose state p c) = state"
  by (auto simp: thrown_def match_propose_def prog_defs Let_def split: option.splits if_splits)

lemma match_accept_throw: "thrown (match_accept state p c) \<noteq> None \<Longrightarrow> snd (match_accept state p c) = state"
  by (auto simp: thrown_def match_accept_def prog_defs Let_def split: option.splits if_splits)

lemma match_complete_throw: "thrown (match_complete state p c) \<noteq> None \<Longrightarrow> snd (match_complete state p c) = state"
  by (auto simp: thrown_def match_complete_def prog_defs Let_def split: option.splits if_splits)

lemma channel_join_throw: "thrown (channel_join state p c) \<noteq> None \<Longrightarrow> snd (channel_join state p c) = state"
  by (auto simp: thrown_def channel_join_def prog_defs Let_def split: option.splits if_splits)

lemma channel_leave_throw: "thrown (channel_leave state p c) \<noteq> None \<Longrightarrow> snd (channel_leave state p c) = state"
  by (auto simp: thrown_def channel_leave_def prog_defs Let_def split: option.splits if_splits)

lemma message_record_throw: "thrown (message_record state c) \<noteq> None \<Longrightarrow> snd (message_record state c) = state"
  by (auto simp: thrown_def message_record_def prog_defs Let_def split: option.splits if_splits)

lemma run_handler_throw:
  "thrown (run_handler state cmd c) \<noteq> None \<Longrightarrow> snd (run_handler state cmd c) = state"
  by (cases cmd)
     (simp_all add: agent_register_throw agent_update_throw agent_unregister_throw
        match_create_throw match_propose_throw match_accept_throw match_complete_throw
        channel_join_throw channel_leave_throw message_record_throw)

lemma view_after_throw:
  "thrown r \<noteq> None \<Longrightarrow> view_after r = snd r"
  by (cases r) (auto simp: thrown_def view_after_def split: sum.splits)

lemma match_propose_expired:
  "matchRequests state (pp_matchId p) = Some request \<Longrightarrow> timestamp c > r_expiresAt request \<Longrightarrow>
   match_propose state p c = (Inl RequestExpired, state)"
  by (simp add: match_propose_def prog_defs)

text \<open>
  Claim C3. Whenever a transition handler throws, it has written nothing: the caller's state
  object, and so the view after the command, is the input view. In particular a proposal
  submitted after the request's expiry fails with \<open>RequestExpired\<close> and leaves the proposal
  map as it was.
\<close>

theorem errors_raised_before_writes:
  "(\<forall>e state'. run_handler state cmd c = (Inl e, state') \<longrightarrow>
       state' = state \<and> view_after (run_handler state cmd c) = state) \<and>
   (\<forall>request. matchRequests state (pp_matchId p) = Some request \<and> timestamp c > r_expiresAt request \<longrightarrow>
       match_propose state p c = (Inl RequestExpired, state) \<and>
       matchProposals (view_after (match_propose state p c)) = matchProposals state)"
proof (intro conjI allI impI)
  fix e state'
  assume run: "run_handler state cmd c = (Inl e, state')"
  then have t: "thrown (run_handler state cmd c) \<noteq> None"
    by (simp add: thrown_def)
  from run_handler_throw [OF t] run show "state' = state"
    by simp
  from view_after_throw [OF t] run_handler_throw [OF t]
  show "view_after (run_handler state cmd c) = state"
    by simp
next
  fix request
  assume a: "matchRequests state (pp_matchId p) = Some request \<and> timestamp c > r_expiresAt request"
  then show e: "match_propose state p c = (Inl RequestExpired, state)"
    by (simp add: match_propose_expired)
  show "matchProposals (view_after (match_propose state p c)) = matchProposals state"
    by (simp add: e view_after_def)
qed

lemma pending_view_request: "matchRequests pending_view ''match-R-1000'' = Some pending_request"
  by code_simp

theorem errors_raised_before_writes_witness:
  "matchRequests pending_view (pp_matchId (propose_on ''match-R-1000'')) = Some pending_request \<and>
   timestamp (ctx_of ''P'' 400000) > r_expiresAt pending_request \<and>
   run_handler pending_view (MatchPropose (propose_on ''match-R-1000'')) (ctx_of ''P'' 400000)
     = (Inl RequestExpired, pending_view) \<and>
   view_after (run_handler pending_view (MatchPropose (propose_on ''match-R-1000'')) (ctx_of ''P'' 400000))
     = pending_view"
proof -
  have h1: "matchRequests pending_view (pp_matchId (propose_on ''match-R-1000'')) = Some pending_request"
    by (simp add: propose_on_def pending_view_request)
  have h2: "timestamp (ctx_of ''P'' 400000) > r_expiresAt pending_request"
    by (simp add: ctx_of_def pending_request_def)
  from errors_raised_before_writes
         [of pending_view "MatchPropose (propose_on ''match-R-1000'')" "ctx_of ''P'' 400000"
             "propose_on ''match-R-1000''"]
       h1 h2
  show ?thesis by simp
qed

section \<open>The lifecycle guard of match acceptance\<close>

lemma match_accept_never_not_pending:
  "thrown (match_accept state p c) \<noteq> Some RequestNotPending"
  by (auto simp: thrown_def match_accept_def prog_defs Let_def split: option.splits)

text \<open>
  Claim C1 (fails on the code). In \<open>accepted_view\<close> the request of R has been accepted with
  P's proposal. A second \<^verbatim>\<open>match_accept\<close> by R on the same request and proposal throws
  nothing: it returns a new state in which both match counts have gone up again.
\<close>

theorem second_accept_is_not_rejected:
  "map_option r_status (matchRequests accepted_view ''match-R-1000'') = Some Accepted \<and>
   map_option r_requesterId (matchRequests accepted_view ''match-R-1000'') = Some ''R'' \<and>
   map_option mp_proposerId (matchProposals accepted_view ''match-R-1000-P'') = Some ''P'' \<and>
   map (\<lambda>(k, a). (k, a_matchCount a)) (agents accepted_view) = [(''R'', 1), (''P'', 1)] \<and>
   thrown (match_accept accepted_view (accept_of ''match-R-1000'' ''P'') (ctx_of ''R'' 4000)) = None \<and>
   map (\<lambda>(k, a). (k, a_matchCount a))
       (agents (view_after (match_accept accepted_view (accept_of ''match-R-1000'' ''P'')
                              (ctx_of ''R'' 4000))))
     = [(''R'', 2), (''P'', 2)]"
  by code_simp

section \<open>Index consistency\<close>

lemma reregistered_view_facts:
  "map (\<lambda>(k, a). (k, a_id a, capability_names a)) (agents reregistered_view)
     = [(''W'', ''W'', [''y''])] \<and>
   index_entry reregistered_view ''x'' = [''W''] \<and>
   index_entry reregistered_view ''y'' = [''W''] \<and>
   totalAgents (stats reregistered_view) = 2"
  by code_simp

lemma reregistered_view_inconsistent: "\<not> index_consistent reregistered_view"
proof
  assume c: "index_consistent reregistered_view"
  from reregistered_view_facts
  have ag: "map (\<lambda>(k, a). (k, a_id a, capability_names a)) (agents reregistered_view)
              = [(''W'', ''W'', [''y''])]"
    and ix: "index_entry reregistered_view ''x'' = [''W'']"
    by simp_all
  from ag obtain a where a: "agents reregistered_view = [(''W'', a)]"
    "a_id a = ''W''" "capability_names a = [''y'']"
    by (auto simp: map_eq_Cons_conv)
  from c a have "a_id a \<in> set (index_entry reregistered_view ''x'')
                  \<longleftrightarrow> ''x'' \<in> set (capability_names a)"
    unfolding index_consistent_def by simp
  with a ix show False by simp
qed

text \<open>
  Claim C2 (fails on the code). \<^verbatim>\<open>agent_register\<close> does not look whether its writer is
  registered already. After W has registered with capability x and registered again, under
  another name, with capability y, the one agent of the view lists y only, while the index
  entry of x still holds W; the agent counter stands at 2.
\<close>

theorem reregistration_leaves_stale_index_entry:
  "map (\<lambda>(k, a). (k, a_id a, capability_names a)) (agents reregistered_view)
     = [(''W'', ''W'', [''y''])] \<and>
   index_entry reregistered_view ''x'' = [''W''] \<and>
   index_entry reregistered_view ''y'' = [''W''] \<and>
   totalAgents (stats reregistered_view) = 2"
  by code_simp

section \<open>Proficiency on write\<close>

lemma stored_proficiency_clamps:
  "p \<noteq> 0 \<Longrightarrow> stored_proficiency (Some p) = min 1 (max 0 p)"
  by (simp add: stored_proficiency_def)

lemma stored_proficiency_range: "0 \<le> stored_proficiency p \<and> stored_proficiency p \<le> 1"
  by (simp add: stored_proficiency_def split: option.splits)

text \<open>What the two handlers store for the capabilities of a payload.\<close>

lemma new_agent_proficiencies:
  "map cap_proficiency (a_capabilities (new_agent p c))
     = map (\<lambda>cap. stored_proficiency (ci_proficiency cap))
           (case rp_capabilities p of None \<Rightarrow> [] | Some cs \<Rightarrow> cs)"
  by (simp add: new_agent_def register_capability_def)

lemma updated_agent_proficiencies:
  "up_capabilities p = Some caps \<Longrightarrow>
   map cap_proficiency (a_capabilities (updated_agent a p c))
     = map (\<lambda>cap. stored_proficiency (ci_proficiency cap)) caps"
  by (simp add: updated_agent_def Let_def update_capability_def split: option.splits)

lemma agent_register_thrown:
  "thrown (agent_register state p c) =
     (if rp_name p = [] then Some NameRequired
      else if (\<exists>a \<in> set (map snd (agents state)). a_name a = rp_name p) then Some DuplicateName
      else None)"
  by (simp add: thrown_def agent_register_def prog_defs Let_def)

lemma agent_update_thrown:
  "thrown (agent_update state p c) =
     (if map_of (agents state) (writer c) = None then Some NotRegistered else None)"
  by (auto simp: thrown_def agent_update_def prog_defs Let_def split: option.splits)

text \<open>
  Claim C7 (fails on the code). A capability registered, or written by an update, with
  proficiency 0 is stored with proficiency 0.5, where clamping 0 into [0,1] gives 0: the
  default \<^verbatim>\<open>cap.proficiency || 0.5\<close> takes the number 0 for an absent value. Neither
  command is rejected.
\<close>

theorem zero_proficiency_is_stored_as_default:
  "thrown (run_handler initial_state (register_as ''a'' [cap_in ''x'' (Some 0)]) (ctx_of ''W'' 1)) = None \<and>
   map (\<lambda>(k, a). map (\<lambda>cap. (cap_name cap, cap_proficiency cap)) (a_capabilities a))
       (agents (view_after (run_handler initial_state (register_as ''a'' [cap_in ''x'' (Some 0)])
                              (ctx_of ''W'' 1))))
     = [[(''x'', 0.5)]] \<and>
   thrown (run_handler
             (view_after (run_handler initial_state (register_as ''a'' []) (ctx_of ''W'' 1)))
             (AgentUpdate \<lparr>up_status = None, up_capabilities = Some [cap_in ''x'' (Some 0)],
                           up_visibility = None, up_endpoint = None\<rparr>) (ctx_of ''W'' 2)) = None \<and>
   map (\<lambda>(k, a). map (\<lambda>cap. (cap_name cap, cap_proficiency cap)) (a_capabilities a))
       (agents (view_after (run_handler
             (view_after (run_handler initial_state (register_as ''a'' []) (ctx_of ''W'' 1)))
             (AgentUpdate \<lparr>up_status = None, up_capabilities = Some [cap_in ''x'' (Some 0)],
                           up_visibility = None, up_endpoint = None\<rparr>) (ctx_of ''W'' 2))))
     = [[(''x'', 0.5)]] \<and>
   min 1 (max 0 (0::real)) = 0"
  by code_simp

section \<open>Creation of a match request\<close>

text \<open>
  Claim C6 as stated fails: a request created at time 1000 with ttl 60 expires at 61000, not
  at 1000 + 60; the ttl is in seconds and the timestamps are in milliseconds.
\<close>

theorem expiry_is_not_timestamp_plus_ttl:
  "map_option r_expiresAt
     (matchRequests (view_after (match_create initial_state (create_for [''x''] (Some 60))
                                   (ctx_of ''R'' 1000))) ''match-R-1000'') = Some 61000 \<and>
   (61000::int) \<noteq> timestamp (ctx_of ''R'' 1000) + 60"
  by code_simp

text \<open>
  Claim C6, amended. \<^verbatim>\<open>match_create\<close> throws exactly when the list of required capabilities
  is empty or absent, and then it throws \<open>EmptyCapabilitySet\<close>; otherwise it returns a state
  that holds, under the id announced in the event, a request of status \<open>Pending\<close> whose
  \<open>expiresAt\<close> is the timestamp of the command plus 1000 times the ttl (300 when the payload
  gives none), and it writes nothing to the caller's state.
\<close>

theorem match_create_pending_with_expiry:
  "(thrown (match_create v p c) = Some EmptyCapabilitySet
      \<longleftrightarrow> (case cp_requiredCapabilities p of None \<Rightarrow> [] | Some cs \<Rightarrow> cs) = []) \<and>
   (thrown (match_create v p c) = None
      \<longleftrightarrow> (case cp_requiredCapabilities p of None \<Rightarrow> [] | Some cs \<Rightarrow> cs) \<noteq> []) \<and>
   ((case cp_requiredCapabilities p of None \<Rightarrow> [] | Some cs \<Rightarrow> cs) \<noteq> [] \<longrightarrow>
      (\<exists>v' matchId request.
         match_create v p c = (Inr (v', Some (MatchRequestCreated matchId request)), v) \<and>
         matchRequests v' matchId = Some request \<and>
         r_expiresAt request
           = timestamp c + (case cp_ttl p of None \<Rightarrow> 300 | Some t \<Rightarrow> t) * 1000 \<and>
         r_status request = Pending \<and>
         r_requesterId request = writer c \<and>
         r_requiredCapabilities request
           = (case cp_requiredCapabilities p of None \<Rightarrow> [] | Some cs \<Rightarrow> cs)))"
  by (auto simp: thrown_def match_create_def prog_defs Let_def split: option.splits)

theorem match_create_pending_with_expiry_witness:
  "(case cp_requiredCapabilities (create_for [''x''] (Some 60)) of None \<Rightarrow> [] | Some cs \<Rightarrow> cs) \<noteq> [] \<and>
   thrown (match_create initial_state (create_for [''x''] (Some 60)) (ctx_of ''R'' 1000)) = None \<and>
   (\<exists>v' matchId request.
      match_create initial_state (create_for [''x''] (Some 60)) (ctx_of ''R'' 1000)
        = (Inr (v', Some (MatchRequestCreated matchId request)), initial_state) \<and>
      matchRequests v' matchId = Some request \<and>
      r_expiresAt request = 61000 \<and>
      r_status request = Pending)"
proof -
  have h: "(case cp_requiredCapabilities (create_for [''x''] (Some 60)) of
              None \<Rightarrow> [] | Some cs \<Rightarrow> cs) \<noteq> []"
    by (simp add: create_for_def)
  have t: "timestamp (ctx_of ''R'' 1000) + (case cp_ttl (create_for [''x''] (Some 60)) of
              None \<Rightarrow> 300 | Some t \<Rightarrow> t) * 1000 = 61000"
    by (simp add: create_for_def ctx_of_def)
  from match_create_pending_with_expiry
         [of initial_state "create_for [''x''] (Some 60)" "ctx_of ''R'' 1000"] h
  show ?thesis unfolding t by blast
qed

section \<open>Discovery\<close>

lemma fold_push_if_absent_set:
  "set (fold (\<lambda>x acc. push_if_absent acc x) xs acc) = set acc \<union> set xs"
  by (induction xs arbitrary: acc) (auto simp: push_if_absent_def)

lemma fold_push_if_absent_distinct:
  "distinct xs \<Longrightarrow> set xs \<inter> set acc = {} \<Longrightarrow>
   fold (\<lambda>x acc. push_if_absent acc x) xs acc = acc @ xs"
  by (induction xs arbitrary: acc) (auto simp: push_if_absent_def)

lemma agents_wf_ids: "agents_wf v \<Longrightarrow> map a_id (map snd (agents v)) = map fst (agents v)"
  by (auto simp: agents_wf_def)

lemma agents_wf_lookup:
  "agents_wf v \<Longrightarrow> a \<in> set (map snd (agents v)) \<Longrightarrow> map_of (agents v) (a_id a) = Some a"
  by (auto simp: agents_wf_def)

lemma matching_agent_ids_browse:
  assumes "agents_wf v"
  shows "matching_agent_ids v [] =
           map a_id (filter (\<lambda>a. a_visibility a = ''public'') (map snd (agents v)))"
proof -
  let ?pub = "filter (\<lambda>a. a_visibility a = ''public'') (map snd (agents v))"
  have d: "distinct (map a_id (map snd (agents v)))"
    unfolding agents_wf_ids [OF assms] using assms by (simp add: agents_wf_def)
  then have "distinct (map a_id ?pub)"
    by (rule distinct_map_filter)
  then have "fold (\<lambda>x acc. push_if_absent acc x) (map a_id ?pub) [] = [] @ map a_id ?pub"
    by (intro fold_push_if_absent_distinct) simp_all
  then show ?thesis
    by (simp add: matching_agent_ids_def fold_map comp_def)
qed

lemma score_candidate_browse:
  assumes "agents_wf v" and "a \<in> set (map snd (agents v))" and "a_visibility a = ''public''"
  shows "score_candidate v [] m status (a_id a) =
           (if browsable status a then [browse_result v a] else [])"
  using agents_wf_lookup [OF assms(1,2)] assms(3)
  by (simp add: score_candidate_def browsable_def browse_result_def)

lemma concat_map_filter_singleton:
  "(\<And>x. x \<in> set xs \<Longrightarrow> f x = (if P x then [g x] else [])) \<Longrightarrow>
   concat (map f xs) = map g (filter P xs)"
  by (induction xs) auto

lemma discover_results_browse:
  assumes wf: "agents_wf v"
    and empty: "(case dp_capabilities q of None \<Rightarrow> [] | Some cs \<Rightarrow> cs) = []"
  shows "discover_results v q =
           map (browse_result v) (filter (browsable (dp_status q)) (map snd (agents v)))"
proof -
  let ?pub = "filter (\<lambda>a. a_visibility a = ''public'') (map snd (agents v))"
  let ?m = "case dp_minProficiency q of None \<Rightarrow> 0 | Some m \<Rightarrow> m"
  have "concat (map (\<lambda>a. score_candidate v [] ?m (dp_status q) (a_id a)) ?pub)
          = map (browse_result v) (filter (browsable (dp_status q)) ?pub)"
    by (rule concat_map_filter_singleton) (simp add: score_candidate_browse [OF wf])
  moreover have "filter (browsable (dp_status q)) ?pub
                   = filter (browsable (dp_status q)) (map snd (agents v))"
    by (auto simp: browsable_def intro: filter_cong)
  ultimately have c: "concat (map (score_candidate v [] ?m (dp_status q)) (matching_agent_ids v []))
          = map (browse_result v) (filter (browsable (dp_status q)) (map snd (agents v)))"
    by (simp add: matching_agent_ids_browse [OF wf] comp_def)
  have s: "sort_key (\<lambda>r. - d_matchScore r) (map (browse_result v) xs) = map (browse_result v) xs" for xs
    by (rule sort_key_id_if_sorted) (simp add: browse_result_def comp_def sorted_replicate map_replicate_const)
  show ?thesis
    unfolding discover_results_def Let_def empty c s ..
qed

lemma js_slice0_map: "js_slice0 (map f xs) l = map f (js_slice0 xs l)"
  by (simp add: js_slice0_def take_map)

text \<open>
  Claim C4 as stated fails: in a view with the public agents A and B, the unfiltered query
  returns both, each with match score 0.5, not 1.
\<close>

theorem browse_score_is_not_one:
  "map d_id (dr_agents (discover two_agent_view browse_all)) = [''A'', ''B''] \<and>
   map d_matchScore (dr_agents (discover two_agent_view browse_all)) = [0.5, 0.5] \<and>
   map d_matchScore (dr_agents (discover two_agent_view browse_all)) \<noteq> [1, 1]"
  by code_simp

text \<open>
  Claim C4, amended. In a view whose registry holds one entry per identity, filed under the
  agent's id, \<^verbatim>\<open>discover\<close> with an empty (or absent) capability list returns the public
  agents, those of the requested status if one is requested, in registry order and cut to the
  limit; each returned agent carries match score 0.5 and no matched capability, whatever
  capabilities the agent has.
\<close>

theorem discover_browse_all_public:
  assumes "agents_wf v"
    and "(case dp_capabilities q of None \<Rightarrow> [] | Some cs \<Rightarrow> cs) = []"
  shows "dr_agents (discover v q)
           = js_slice0 (map (browse_result v) (filter (browsable (dp_status q)) (map snd (agents v))))
                       (case dp_limit q of None \<Rightarrow> 20 | Some l \<Rightarrow> l) \<and>
         map d_id (dr_agents (discover v q))
           = js_slice0 (map a_id (filter (browsable (dp_status q)) (map snd (agents v))))
                       (case dp_limit q of None \<Rightarrow> 20 | Some l \<Rightarrow> l) \<and>
         dr_total (discover v q) = length (filter (browsable (dp_status q)) (map snd (agents v))) \<and>
         list_all (\<lambda>r. d_matchScore r = 0.5 \<and> d_matchedCapabilities r = []) (dr_agents (discover v q))"
proof -
  let ?xs = "filter (browsable (dp_status q)) (map snd (agents v))"
  let ?l = "case dp_limit q of None \<Rightarrow> 20 | Some l \<Rightarrow> l"
  have r: "dr_agents (discover v q) = js_slice0 (map (browse_result v) ?xs) ?l"
    and t: "dr_total (discover v q) = length ?xs"
    by (simp_all add: discover_def Let_def discover_results_browse [OF assms])
  have i: "map d_id (map (browse_result v) ys) = map a_id ys" for ys
    by (simp add: browse_result_def comp_def)
  have "map d_id (dr_agents (discover v q)) = js_slice0 (map a_id ?xs) ?l"
    unfolding r js_slice0_map [symmetric] i ..
  moreover have "list_all (\<lambda>r. d_matchScore r = 0.5 \<and> d_matchedCapabilities r = [])
                   (dr_agents (discover v q))"
    unfolding r js_slice0_map
    by (simp add: list_all_iff browse_result_def)
  ultimately show ?thesis using r t by simp
qed

lemma two_agent_view_agents:
  "map fst (agents two_agent_view) = [''A'', ''B''] \<and>
   map (a_id \<circ> snd) (agents two_agent_view) = [''A'', ''B'']"
  by code_simp

lemma two_agent_view_wf: "agents_wf two_agent_view"
proof -
  from two_agent_view_agents obtain a b where
    "agents two_agent_view = [(''A'', a), (''B'', b)]" "a_id a = ''A''" "a_id b = ''B''"
    by (auto simp: map_eq_Cons_conv)
  then show ?thesis by (simp add: agents_wf_def)
qed

theorem discover_browse_all_public_witness:
  "agents_wf two_agent_view \<and>
   (case dp_capabilities browse_all of None \<Rightarrow> [] | Some cs \<Rightarrow> cs) = [] \<and>
   map d_id (dr_agents (discover two_agent_view browse_all))
     = js_slice0 (map a_id (filter (browsable (dp_status browse_all)) (map snd (agents two_agent_view)))) 20 \<and>
   list_all (\<lambda>r. d_matchScore r = 0.5 \<and> d_matchedCapabilities r = [])
     (dr_agents (discover two_agent_view browse_all))"
proof -
  have e: "(case dp_capabilities browse_all of None \<Rightarrow> [] | Some cs \<Rightarrow> cs) = []"
    by (simp add: browse_all_def)
  have l: "(case dp_limit browse_all of None \<Rightarrow> 20 | Some l \<Rightarrow> l) = 20"
    by (simp add: browse_all_def)
  from discover_browse_all_public [OF two_agent_view_wf e] two_agent_view_wf e
  show ?thesis unfolding l by blast
qed

lemma score_candidate_mono:
  assumes "m1 \<le> m2"
  shows "set (map d_id (score_candidate v caps m2 status i))
           \<subseteq> set (map d_id (score_candidate v caps m1 status i))"
proof (cases "map_of (agents v) i")
  case None
  then show ?thesis by (simp add: score_candidate_def)
next
  case (Some a)
  have "filter (\<lambda>cap. cap_name cap \<in> set caps \<and> m2 \<le> cap_proficiency cap) (a_capabilities a) \<noteq> []
        \<Longrightarrow> filter (\<lambda>cap. cap_name cap \<in> set caps \<and> m1 \<le> cap_proficiency cap) (a_capabilities a) \<noteq> []"
    using assms by (fastforce simp: filter_empty_conv)
  with Some show ?thesis
    by (auto simp: score_candidate_def Let_def)
qed

lemma discover_results_ids:
  "set (map d_id (discover_results v q)) =
     (\<Union>i \<in> set (matching_agent_ids v (case dp_capabilities q of None \<Rightarrow> [] | Some cs \<Rightarrow> cs)).
        set (map d_id (score_candidate v (case dp_capabilities q of None \<Rightarrow> [] | Some cs \<Rightarrow> cs)
                         (case dp_minProficiency q of None \<Rightarrow> 0 | Some m \<Rightarrow> m) (dp_status q) i)))"
  by (auto simp: discover_results_def Let_def)

lemma discover_results_mono:
  assumes "m1 \<le> m2"
  shows "set (map d_id (discover_results v (q\<lparr>dp_minProficiency := Some m2\<rparr>)))
           \<subseteq> set (map d_id (discover_results v (q\<lparr>dp_minProficiency := Some m1\<rparr>)))"
  unfolding discover_results_ids using score_candidate_mono [OF assms] by fastforce

lemma js_slice0_subset: "set (js_slice0 xs l) \<subseteq> set xs"
  by (simp add: js_slice0_def set_take_subset)

lemma js_slice0_all: "int (length xs) \<le> l \<Longrightarrow> js_slice0 xs l = xs"
  by (simp add: js_slice0_def)

text \<open>
  Claim C8 as stated fails, because the result is cut to the limit after sorting by score. In
  the view with A (x at 0.6, y at 0.3) and B (x at 0.8), the query for x and y with limit 1
  returns A at minimum proficiency 0 and B at minimum proficiency 0.5.
\<close>

theorem raising_min_proficiency_changes_top_agent:
  "map d_id (dr_agents (discover two_agent_view (query_xy 0))) = [''A''] \<and>
   map d_id (dr_agents (discover two_agent_view (query_xy 0.5))) = [''B''] \<and>
   \<not> set (map d_id (dr_agents (discover two_agent_view (query_xy 0.5))))
       \<subseteq> set (map d_id (dr_agents (discover two_agent_view (query_xy 0))))"
  by code_simp

lemma score_candidate_length_mono:
  assumes "m1 \<le> m2"
  shows "length (score_candidate v caps m2 status i) \<le> length (score_candidate v caps m1 status i)"
proof (cases "map_of (agents v) i")
  case None
  then show ?thesis by (simp add: score_candidate_def)
next
  case (Some a)
  have "filter (\<lambda>cap. cap_name cap \<in> set caps \<and> m2 \<le> cap_proficiency cap) (a_capabilities a) \<noteq> []
        \<Longrightarrow> filter (\<lambda>cap. cap_name cap \<in> set caps \<and> m1 \<le> cap_proficiency cap) (a_capabilities a) \<noteq> []"
    using assms by (fastforce simp: filter_empty_conv)
  with Some show ?thesis
    by (auto simp: score_candidate_def Let_def)
qed

lemma length_concat_map_mono:
  "(\<And>x. x \<in> set xs \<Longrightarrow> length (f x) \<le> length (g x)) \<Longrightarrow>
   length (concat (map f xs)) \<le> length (concat (map g xs))"
  by (induction xs) (simp_all add: add_mono)

lemma discover_results_length_mono:
  assumes "m1 \<le> m2"
  shows "length (discover_results v (q\<lparr>dp_minProficiency := Some m2\<rparr>))
           \<le> length (discover_results v (q\<lparr>dp_minProficiency := Some m1\<rparr>))"
  by (simp add: discover_results_def Let_def length_concat_map_mono
        score_candidate_length_mono [OF assms])

lemma js_slice0_length_mono:
  "length xs \<le> length ys \<Longrightarrow> length (js_slice0 xs l) \<le> length (js_slice0 ys l)"
  by (auto simp: js_slice0_def min_def)

text \<open>
  Claim C8, amended. For every view, every fixed query and m1 \<le> m2: the agents returned
  with minimum proficiency m2 are never more than the agents returned with m1, and neither
  is \<open>total\<close>; the agents that pass the filter with m2 (the sorted results before the cut to
  the limit) are among those that pass with m1; and when the results for m1 fit within the
  limit, the agents returned with m2 are among the agents returned with m1.
\<close>

theorem discover_monotone_in_min_proficiency:
  assumes "m1 \<le> m2"
  shows "length (dr_agents (discover v (q\<lparr>dp_minProficiency := Some m2\<rparr>)))
           \<le> length (dr_agents (discover v (q\<lparr>dp_minProficiency := Some m1\<rparr>))) \<and>
         dr_total (discover v (q\<lparr>dp_minProficiency := Some m2\<rparr>))
           \<le> dr_total (discover v (q\<lparr>dp_minProficiency := Some m1\<rparr>)) \<and>
         set (map d_id (discover_results v (q\<lparr>dp_minProficiency := Some m2\<rparr>)))
           \<subseteq> set (map d_id (discover_results v (q\<lparr>dp_minProficiency := Some m1\<rparr>))) \<and>
         (int (dr_total (discover v (q\<lparr>dp_minProficiency := Some m1\<rparr>)))
               \<le> (case dp_limit q of None \<Rightarrow> 20 | Some l \<Rightarrow> l) \<longrightarrow>
          set (map d_id (dr_agents (discover v (q\<lparr>dp_minProficiency := Some m2\<rparr>))))
            \<subseteq> set (map d_id (dr_agents (discover v (q\<lparr>dp_minProficiency := Some m1\<rparr>)))))"
proof -
  let ?l = "case dp_limit q of None \<Rightarrow> 20 | Some l \<Rightarrow> l"
  let ?r1 = "discover_results v (q\<lparr>dp_minProficiency := Some m1\<rparr>)"
  let ?r2 = "discover_results v (q\<lparr>dp_minProficiency := Some m2\<rparr>)"
  have mono: "set (map d_id ?r2) \<subseteq> set (map d_id ?r1)"
    by (rule discover_results_mono [OF assms])
  have len: "length ?r2 \<le> length ?r1"
    by (rule discover_results_length_mono [OF assms])
  have a1: "dr_agents (discover v (q\<lparr>dp_minProficiency := Some m1\<rparr>)) = js_slice0 ?r1 ?l"
    and a2: "dr_agents (discover v (q\<lparr>dp_minProficiency := Some m2\<rparr>)) = js_slice0 ?r2 ?l"
    and t1: "dr_total (discover v (q\<lparr>dp_minProficiency := Some m1\<rparr>)) = length ?r1"
    and t2: "dr_total (discover v (q\<lparr>dp_minProficiency := Some m2\<rparr>)) = length ?r2"
    by (simp_all add: discover_def Let_def)
  have cut: "length (js_slice0 ?r2 ?l) \<le> length (js_slice0 ?r1 ?l)"
    by (rule js_slice0_length_mono [OF len])
  have "set (map d_id (js_slice0 ?r2 ?l)) \<subseteq> set (map d_id (js_slice0 ?r1 ?l))"
    if fits: "int (length ?r1) \<le> ?l"
  proof -
    have "set (map d_id (js_slice0 ?r2 ?l)) \<subseteq> set (map d_id ?r2)"
      using js_slice0_subset [of ?r2 ?l] by auto
    also note mono
    also have "?r1 = js_slice0 ?r1 ?l"
      using js_slice0_all [OF fits] by simp
    finally show ?thesis .
  qed
  with mono len cut show ?thesis
    unfolding a1 a2 t1 t2 by simp
qed

theorem discover_monotone_in_min_proficiency_witness:
  "(0::real) \<le> 0.5 \<and>
   length (dr_agents (discover two_agent_view (query_xy 0.5)))
     \<le> length (dr_agents (discover two_agent_view (query_xy 0))) \<and>
   dr_total (discover two_agent_view (query_xy 0.5)) \<le> dr_total (discover two_agent_view (query_xy 0)) \<and>
   set (map d_id (discover_results two_agent_view (query_xy 0.5)))
     \<subseteq> set (map d_id (discover_results two_agent_view (query_xy 0))) \<and>
   int (dr_total (discover two_agent_view ((query_xy 0)\<lparr>dp_limit := Some 5\<rparr>))) \<le> 5 \<and>
   set (map d_id (dr_agents (discover two_agent_view ((query_xy 0.5)\<lparr>dp_limit := Some 5\<rparr>))))
     \<subseteq> set (map d_id (dr_agents (discover two_agent_view ((query_xy 0)\<lparr>dp_limit := Some 5\<rparr>))))"
proof -
  have le: "(0::real) \<le> 0.5" by simp
  have q1: "(query_xy 0)\<lparr>dp_limit := Some 5\<rparr>
              = ((query_xy 0)\<lparr>dp_limit := Some 5\<rparr>)\<lparr>dp_minProficiency := Some 0\<rparr>"
    and q2: "(query_xy 0.5)\<lparr>dp_limit := Some 5\<rparr>
              = ((query_xy 0)\<lparr>dp_limit := Some 5\<rparr>)\<lparr>dp_minProficiency := Some 0.5\<rparr>"
    and q3: "query_xy 0 = (query_xy 0)\<lparr>dp_minProficiency := Some 0\<rparr>"
    and q4: "query_xy 0.5 = (query_xy 0)\<lparr>dp_minProficiency := Some 0.5\<rparr>"
    by (simp_all add: query_xy_def)
  have fits: "int (dr_total (discover two_agent_view ((query_xy 0)\<lparr>dp_limit := Some 5\<rparr>))) \<le> 5"
    by code_simp
  have l: "(case dp_limit ((query_xy 0)\<lparr>dp_limit := Some 5\<rparr>) of None \<Rightarrow> 20 | Some l \<Rightarrow> l) = 5"
    by simp
  from discover_monotone_in_min_proficiency [OF le, of two_agent_view "query_xy 0"]
  have a: "length (dr_agents (discover two_agent_view (query_xy 0.5)))
             \<le> length (dr_agents (discover two_agent_view (query_xy 0)))"
    "dr_total (discover two_agent_view (query_xy 0.5)) \<le> dr_total (discover two_agent_view (query_xy 0))"
    "set (map d_id (discover_results two_agent_view (query_xy 0.5)))
             \<subseteq> set (map d_id (discover_results two_agent_view (query_xy 0)))"
    unfolding q3 [symmetric] q4 [symmetric] by blast+
  from discover_monotone_in_min_proficiency
         [OF le, of two_agent_view "(query_xy 0)\<lparr>dp_limit := Some 5\<rparr>"] fits
  have b: "set (map d_id (dr_agents (discover two_agent_view ((query_xy 0.5)\<lparr>dp_limit := Some 5\<rparr>))))
             \<subseteq> set (map d_id (dr_agents (discover two_agent_view ((query_xy 0)\<lparr>dp_limit := Some 5\<rparr>))))"
    unfolding q1 [symmetric] q2 [symmetric] l by blast
  from le a fits b show ?thesis by blast
qed

section \<open>The index loops\<close>

lemma ids_under_index_remove:
  "ids_under (index_remove w idx n) capName =
     (if capName = n then remove1 w (ids_under idx capName) else ids_under idx capName)"
  by (simp add: ids_under_def index_remove_def split: option.splits)

lemma ids_under_index_add:
  "ids_under (index_add w idx n) capName =
     (if capName = n then push_if_absent (ids_under idx capName) w else ids_under idx capName)"
  by (simp add: ids_under_def index_add_def split: option.splits)

lemma ids_under_fold_remove:
  "distinct (ids_under idx capName) \<Longrightarrow>
   ids_under (fold (\<lambda>n idx. index_remove w idx n) names idx) capName =
     (if capName \<in> set names then removeAll w (ids_under idx capName) else ids_under idx capName)"
proof (induction names arbitrary: idx)
  case Nil
  then show ?case by simp
next
  case (Cons n names)
  have d: "distinct (ids_under (index_remove w idx n) capName)"
    using Cons.prems by (auto simp: ids_under_index_remove)
  show ?case
    using Cons.IH [OF d] Cons.prems
    by (auto simp: ids_under_index_remove distinct_remove1_removeAll)
qed

lemma push_if_absent_idem: "push_if_absent (push_if_absent xs w) w = push_if_absent xs w"
  by (simp add: push_if_absent_def)

lemma ids_under_fold_add:
  "ids_under (fold (\<lambda>n idx. index_add w idx n) names idx) capName =
     (if capName \<in> set names then push_if_absent (ids_under idx capName) w
      else ids_under idx capName)"
proof (induction names arbitrary: idx)
  case Nil
  then show ?case by simp
next
  case (Cons n names)
  show ?case
    by (simp add: Cons.IH ids_under_index_add push_if_absent_idem)
qed

lemma fold_index_remove_names:
  "fold (\<lambda>cap idx. index_remove w idx (cap_name cap)) caps idx
     = fold (\<lambda>n idx. index_remove w idx n) (map cap_name caps) idx"
  by (simp add: fold_map comp_def)

lemma fold_index_add_names:
  "fold (\<lambda>cap idx. index_add w idx (ci_name cap)) caps idx
     = fold (\<lambda>n idx. index_add w idx n) (map ci_name caps) idx"
  by (simp add: fold_map comp_def)

section \<open>Unregistration\<close>

lemma agent_unregister_returns:
  assumes "map_of (agents v) (writer c) = Some a"
  shows "agent_unregister v c =
           (Inr (v\<lparr>capabilityIndex := fold (\<lambda>n idx. index_remove (writer c) idx n)
                                            (capability_names a) (capabilityIndex v),
                   agents := AList.delete (writer c) (agents v),
                   stats := (stats v)\<lparr>totalAgents := totalAgents (stats v) - 1\<rparr>\<rparr>,
                 Some (AgentUnregistered (writer c))),
            v\<lparr>capabilityIndex := fold (\<lambda>n idx. index_remove (writer c) idx n)
                                            (capability_names a) (capabilityIndex v),
              agents := AList.delete (writer c) (agents v)\<rparr>)"
  using assms
  by (simp add: agent_unregister_def prog_defs Let_def fold_index_remove_names capability_names_def)



section \<open>Well-formed views\<close>

lemma agents_wf_iff:
  "agents_wf v \<longleftrightarrow>
     distinct (map fst (agents v)) \<and> (\<forall>k a. map_of (agents v) k = Some a \<longrightarrow> a_id a = k)"
proof
  assume "agents_wf v"
  then show "distinct (map fst (agents v)) \<and> (\<forall>k a. map_of (agents v) k = Some a \<longrightarrow> a_id a = k)"
    by (auto simp: agents_wf_def dest: map_of_SomeD)
next
  assume r: "distinct (map fst (agents v)) \<and> (\<forall>k a. map_of (agents v) k = Some a \<longrightarrow> a_id a = k)"
  then have "a_id a = k" if "(k, a) \<in> set (agents v)" for k a
    using that by (simp add: map_of_is_SomeI)
  with r show "agents_wf v"
    by (auto simp: agents_wf_def)
qed


lemma view_ok_consistent:
  assumes "view_ok v"
  shows "index_consistent v"
  unfolding index_consistent_def
proof (intro ballI allI)
  fix a capName
  assume "a \<in> set (map snd (agents v))"
  with assms have "map_of (agents v) (a_id a) = Some a"
    by (auto simp: view_ok_def agents_wf_def)
  with assms show "a_id a \<in> set (index_entry v capName) \<longleftrightarrow> capName \<in> set (capability_names a)"
    by (simp add: view_ok_def index_exact_def)
qed

text \<open>Replacing an agent by one of the same id and the same capability names.\<close>

lemma view_ok_replace:
  assumes ok: "view_ok v"
    and old: "map_of (agents v) w = Some a"
    and id: "a_id a' = w"
    and names: "capability_names a' = capability_names a"
  shows "view_ok (v\<lparr>agents := AList.update w a' (agents v)\<rparr>)"
proof -
  have "agents_wf (v\<lparr>agents := AList.update w a' (agents v)\<rparr>)"
    using ok id
    by (auto simp: view_ok_def agents_wf_iff AList.distinct_update AList.update_conv')
  moreover have "index_distinct (v\<lparr>agents := AList.update w a' (agents v)\<rparr>)"
    using ok by (simp add: view_ok_def index_distinct_def index_entry_def)
  moreover have "index_exact (v\<lparr>agents := AList.update w a' (agents v)\<rparr>)"
    using ok old names
    by (auto simp: view_ok_def index_exact_def index_entry_def AList.update_conv')
  ultimately show ?thesis
    by (simp add: view_ok_def)
qed

text \<open>Installing an agent under its id, after the removal loop over the names the id was
  listed under and the addition loop over the names the new agent lists.\<close>

lemma view_ok_install:
  assumes ok: "view_ok v"
    and id: "a_id a' = w"
    and old: "\<forall>capName. w \<in> set (index_entry v capName) \<longleftrightarrow> capName \<in> set oldNames"
  shows "view_ok (v\<lparr>agents := AList.update w a' (agents v),
                    capabilityIndex :=
                      fold (\<lambda>n idx. index_add w idx n) (capability_names a')
                        (fold (\<lambda>n idx. index_remove w idx n) oldNames (capabilityIndex v))\<rparr>)"
    (is "view_ok ?v'")
proof -
  have d: "distinct (ids_under (capabilityIndex v) capName)" for capName
    using ok by (simp add: view_ok_def index_distinct_def index_entry_def)
  have entry: "index_entry ?v' capName =
                 (if capName \<in> set (capability_names a')
                  then push_if_absent (removeAll w (index_entry v capName)) w
                  else removeAll w (index_entry v capName))" for capName
    using old [rule_format, of capName]
    by (simp add: index_entry_def ids_under_fold_add ids_under_fold_remove [OF d])
  have "agents_wf ?v'"
    using ok id
    by (auto simp: view_ok_def agents_wf_iff AList.distinct_update AList.update_conv')
  moreover have "index_distinct ?v'"
    unfolding index_distinct_def entry
    using d by (auto simp: push_if_absent_def index_entry_def distinct_removeAll)
  moreover have "index_exact ?v'"
    unfolding index_exact_def entry
    using ok
    by (auto simp: view_ok_def index_exact_def push_if_absent_def AList.update_conv')
  ultimately show ?thesis
    by (simp add: view_ok_def)
qed

lemma view_ok_remove:
  assumes ok: "view_ok v"
    and old: "map_of (agents v) w = Some a"
  shows "view_ok (v\<lparr>capabilityIndex := fold (\<lambda>n idx. index_remove w idx n)
                                          (capability_names a) (capabilityIndex v),
                    agents := AList.delete w (agents v)\<rparr>)"
    (is "view_ok ?v'")
proof -
  have d: "distinct (ids_under (capabilityIndex v) capName)" for capName
    using ok by (simp add: view_ok_def index_distinct_def index_entry_def)
  have mine: "w \<in> set (index_entry v capName) \<longleftrightarrow> capName \<in> set (capability_names a)" for capName
    using ok old by (simp add: view_ok_def index_exact_def)
  have entry: "index_entry ?v' capName = removeAll w (index_entry v capName)" for capName
    using mine [of capName]
    by (simp add: index_entry_def ids_under_fold_remove [OF d])
  have "agents_wf ?v'"
    using ok
    by (auto simp: view_ok_def agents_wf_iff AList.distinct_delete AList.delete_conv' split: if_splits)
  moreover have "index_distinct ?v'"
    unfolding index_distinct_def entry
    using d by (simp add: index_entry_def distinct_removeAll)
  moreover have "index_exact ?v'"
    unfolding index_exact_def entry
    using ok
    by (auto simp: view_ok_def index_exact_def AList.delete_conv')
  ultimately show ?thesis
    by (simp add: view_ok_def)
qed

section \<open>The handlers keep a well-formed view well-formed\<close>

lemma view_ok_other_fields:
  "view_ok (v\<lparr>stats := st\<rparr>) = view_ok v"
  "view_ok (v\<lparr>matchRequests := mr\<rparr>) = view_ok v"
  "view_ok (v\<lparr>matchProposals := mp\<rparr>) = view_ok v"
  "view_ok (v\<lparr>channelMembers := cm\<rparr>) = view_ok v"
  "view_ok (v\<lparr>reputation := rep\<rparr>) = view_ok v"
  by (simp_all add: view_ok_def agents_wf_def index_distinct_def index_exact_def index_entry_def)

lemma register_capability_name: "cap_name (register_capability c cap) = ci_name cap"
  by (simp add: register_capability_def)

lemma update_capability_name: "cap_name (update_capability cap) = ci_name cap"
  by (simp add: update_capability_def)

lemma new_agent_id: "a_id (new_agent p c) = writer c"
  by (simp add: new_agent_def)

lemma new_agent_names:
  "capability_names (new_agent p c)
     = map ci_name (case rp_capabilities p of None \<Rightarrow> [] | Some cs \<Rightarrow> cs)"
  by (simp add: new_agent_def capability_names_def register_capability_name)

lemma updated_agent_id: "a_id (updated_agent a p c) = a_id a"
  by (simp add: updated_agent_def Let_def split: option.splits)

lemma updated_agent_names:
  "capability_names (updated_agent a p c)
     = (case up_capabilities p of None \<Rightarrow> capability_names a | Some caps \<Rightarrow> map ci_name caps)"
  by (simp add: updated_agent_def Let_def capability_names_def update_capability_name
        split: option.splits)

lemma agent_register_view_ok:
  assumes ok: "view_ok v" and fresh: "map_of (agents v) (writer c) = None"
  shows "view_ok (view_after (agent_register v p c))"
proof (cases "thrown (agent_register v p c) = None")
  case False
  then show ?thesis
    using ok agent_register_throw [of v p c] view_after_throw [of "agent_register v p c"] by simp
next
  case True
  then have va: "view_after (agent_register v p c) =
               (v\<lparr>agents := AList.update (writer c) (new_agent p c) (agents v),
                  capabilityIndex :=
                    fold (\<lambda>n idx. index_add (writer c) idx n) (capability_names (new_agent p c))
                      (fold (\<lambda>n idx. index_remove (writer c) idx n) [] (capabilityIndex v))\<rparr>)
               \<lparr>stats := (stats v)\<lparr>totalAgents := totalAgents (stats v) + 1\<rparr>\<rparr>"
    by (auto simp: thrown_def agent_register_def prog_defs Let_def view_after_def
          new_agent_names fold_index_add_names split: if_splits)
  have "\<forall>capName. writer c \<in> set (index_entry v capName) \<longleftrightarrow> capName \<in> set []"
    using ok fresh by (simp add: view_ok_def index_exact_def)
  from view_ok_install [OF ok new_agent_id this]
  show ?thesis
    unfolding va by (simp add: view_ok_other_fields)
qed

lemma agent_update_view_ok:
  assumes ok: "view_ok v"
  shows "view_ok (view_after (agent_update v p c))"
proof (cases "map_of (agents v) (writer c)")
  case None
  then show ?thesis
    using ok by (simp add: agent_update_def prog_defs view_after_def)
next
  case (Some a)
  have id: "a_id (updated_agent a p c) = writer c"
    using ok Some by (simp add: view_ok_def agents_wf_iff updated_agent_id)
  show ?thesis
  proof (cases "up_capabilities p")
    case None
    with Some have va: "view_after (agent_update v p c)
                          = v\<lparr>agents := AList.update (writer c) (updated_agent a p c) (agents v)\<rparr>"
      by (simp add: agent_update_def prog_defs Let_def view_after_def)
    have "capability_names (updated_agent a p c) = capability_names a"
      using None by (simp add: updated_agent_names)
    from view_ok_replace [OF ok Some id this] show ?thesis
      unfolding va .
  next
    case (Some caps)
    with \<open>map_of (agents v) (writer c) = Some a\<close>
    have va: "view_after (agent_update v p c) =
                 v\<lparr>agents := AList.update (writer c) (updated_agent a p c) (agents v),
                   capabilityIndex :=
                     fold (\<lambda>n idx. index_add (writer c) idx n) (capability_names (updated_agent a p c))
                       (fold (\<lambda>n idx. index_remove (writer c) idx n) (capability_names a)
                          (capabilityIndex v))\<rparr>"
      by (simp add: agent_update_def prog_defs Let_def view_after_def capability_names_def [of a]
            updated_agent_names fold_index_add_names fold_index_remove_names)
    have "\<forall>capName. writer c \<in> set (index_entry v capName) \<longleftrightarrow> capName \<in> set (capability_names a)"
      using ok \<open>map_of (agents v) (writer c) = Some a\<close> by (simp add: view_ok_def index_exact_def)
    from view_ok_install [OF ok id this] show ?thesis
      unfolding va .
  qed
qed

lemma agent_unregister_view_ok:
  assumes ok: "view_ok v"
  shows "view_ok (view_after (agent_unregister v c))"
proof (cases "map_of (agents v) (writer c)")
  case None
  then show ?thesis
    using ok by (simp add: agent_unregister_def prog_defs view_after_def)
next
  case (Some a)
  from view_ok_remove [OF ok Some] show ?thesis
    by (simp add: agent_unregister_returns [OF Some] view_after_def view_ok_other_fields)
qed

lemma view_ok_fields:
  "agents v' = agents v \<Longrightarrow> capabilityIndex v' = capabilityIndex v \<Longrightarrow> view_ok v' = view_ok v"
  by (simp add: view_ok_def agents_wf_def index_distinct_def index_exact_def index_entry_def)

lemma match_accept_view_ok:
  assumes ok: "view_ok v"
  shows "view_ok (view_after (match_accept v p c))"
proof (cases "thrown (match_accept v p c) = None")
  case False
  then show ?thesis
    using ok match_accept_throw [of v p c] view_after_throw [of "match_accept v p c"] by simp
next
  case True
  let ?agents1 = "case map_of (agents v) (writer c) of
                    None \<Rightarrow> agents v
                  | Some r \<Rightarrow> AList.update (writer c) (r\<lparr>a_matchCount := a_matchCount r + 1\<rparr>) (agents v)"
  let ?agents2 = "case map_of (agents v) (ap_proposerId p) of
                    None \<Rightarrow> ?agents1
                  | Some q \<Rightarrow> AList.update (ap_proposerId p) (q\<lparr>a_matchCount := a_matchCount q + 1\<rparr>) ?agents1"
  from True obtain mr mp where
    va: "view_after (match_accept v p c)
           = v\<lparr>matchRequests := mr, matchProposals := mp, agents := ?agents2\<rparr>"
    by (auto simp: thrown_def match_accept_def prog_defs Let_def view_after_def
          split: option.splits if_splits)
  have id: "map_of (agents v) k = Some a \<Longrightarrow> a_id a = k" for k a
    using ok by (simp add: view_ok_def agents_wf_iff)
  have ok1: "view_ok (v\<lparr>agents := ?agents1\<rparr>)"
  proof (cases "map_of (agents v) (writer c)")
    case None
    then show ?thesis using ok by simp
  next
    case (Some r)
    from view_ok_replace [OF ok Some, of "r\<lparr>a_matchCount := a_matchCount r + 1\<rparr>"] id [OF Some] Some
    show ?thesis by (simp add: capability_names_def)
  qed
  have ok2: "view_ok (v\<lparr>agents := ?agents2\<rparr>)"
  proof (cases "map_of (agents v) (ap_proposerId p)")
    case None
    then show ?thesis using ok1 by simp
  next
    case (Some q)
    have "\<exists>q'. map_of (agents (v\<lparr>agents := ?agents1\<rparr>)) (ap_proposerId p) = Some q' \<and>
               capability_names q' = capability_names q"
    proof (cases "map_of (agents v) (writer c)")
      case None
      with Some show ?thesis by simp
    next
      case (Some r)
      with \<open>map_of (agents v) (ap_proposerId p) = Some q\<close> show ?thesis
        by (cases "ap_proposerId p = writer c")
           (simp_all add: AList.update_conv' capability_names_def)
    qed
    then obtain q' where q': "map_of (agents (v\<lparr>agents := ?agents1\<rparr>)) (ap_proposerId p) = Some q'"
      "capability_names q' = capability_names q"
      by blast
    from view_ok_replace [OF ok1 q'(1), of "q\<lparr>a_matchCount := a_matchCount q + 1\<rparr>"] id [OF Some] q'(2) Some
    show ?thesis by (simp add: capability_names_def)
  qed
  have "view_ok (v\<lparr>matchRequests := mr, matchProposals := mp, agents := ?agents2\<rparr>)
          = view_ok (v\<lparr>agents := ?agents2\<rparr>)"
    by (rule view_ok_fields) simp_all
  with ok2 show ?thesis
    unfolding va by simp
qed

lemma match_complete_view_ok:
  assumes ok: "view_ok v"
  shows "view_ok (view_after (match_complete v p c))"
proof -
  let ?v' = "view_after (match_complete v p c)"
  have id: "map_of (agents v) k = Some a \<Longrightarrow> a_id a = k" for k a
    using ok by (simp add: view_ok_def agents_wf_iff)
  have step: "view_ok (v\<lparr>agents := AList.update k (a\<lparr>a_successCount := a_successCount a + 1\<rparr>) (agents v)\<rparr>)"
    if "map_of (agents v) k = Some a" for k a
    using view_ok_replace [OF ok that, of "a\<lparr>a_successCount := a_successCount a + 1\<rparr>"] id [OF that]
    by (simp add: capability_names_def)
  have ci: "capabilityIndex ?v' = capabilityIndex v"
    by (auto simp: match_complete_def prog_defs Let_def view_after_def
          split: option.splits if_splits)
  have "agents ?v' = agents v \<or>
        (\<exists>k a. map_of (agents v) k = Some a \<and>
           agents ?v' = AList.update k (a\<lparr>a_successCount := a_successCount a + 1\<rparr>) (agents v))"
    by (auto simp: match_complete_def prog_defs Let_def view_after_def
          split: option.splits if_splits)
  then show ?thesis
  proof
    assume "agents ?v' = agents v"
    then have "view_ok ?v' = view_ok v"
      using ci by (rule view_ok_fields)
    with ok show ?thesis by simp
  next
    assume "\<exists>k a. map_of (agents v) k = Some a \<and>
              agents ?v' = AList.update k (a\<lparr>a_successCount := a_successCount a + 1\<rparr>) (agents v)"
    then obtain k a where ka: "map_of (agents v) k = Some a"
      "agents ?v' = AList.update k (a\<lparr>a_successCount := a_successCount a + 1\<rparr>) (agents v)"
      by blast
    have "view_ok ?v' = view_ok (v\<lparr>agents := AList.update k (a\<lparr>a_successCount := a_successCount a + 1\<rparr>) (agents v)\<rparr>)"
      by (rule view_ok_fields) (simp_all add: ka ci)
    with step [OF ka(1)] show ?thesis by simp
  qed
qed

lemma run_handler_view_ok:
  assumes ok: "view_ok v"
    and fresh: "\<And>p. cmd = AgentRegister p \<Longrightarrow> map_of (agents v) (writer c) = None"
  shows "view_ok (view_after (run_handler v cmd c))"
proof (cases cmd)
  case (AgentRegister p)
  then show ?thesis using agent_register_view_ok [OF ok fresh] by simp
next
  case (AgentUpdate p)
  then show ?thesis using agent_update_view_ok [OF ok] by simp
next
  case AgentUnregister
  then show ?thesis using agent_unregister_view_ok [OF ok] by simp
next
  case (MatchCreate p)
  then show ?thesis
    using ok by (auto simp: match_create_def prog_defs Let_def view_after_def view_ok_other_fields)
next
  case (MatchPropose p)
  then show ?thesis
    using ok
    by (auto simp: match_propose_def prog_defs Let_def view_after_def view_ok_other_fields
          split: option.splits)
next
  case (MatchAccept p)
  then show ?thesis using match_accept_view_ok [OF ok] by simp
next
  case (MatchComplete p)
  then show ?thesis using match_complete_view_ok [OF ok] by simp
next
  case (ChannelJoin ch)
  then show ?thesis
    using ok
    by (auto simp: channel_join_def prog_defs Let_def view_after_def view_ok_other_fields
          split: option.splits)
next
  case (ChannelLeave ch)
  then show ?thesis
    using ok
    by (auto simp: channel_leave_def prog_defs Let_def view_after_def view_ok_other_fields
          split: option.splits)
next
  case MessageRecord
  then show ?thesis
    using ok by (auto simp: message_record_def prog_defs view_after_def view_ok_other_fields)
qed

text \<open>So index consistency, as the spec states it, holds after every register by a writer
  that is not registered yet, every update and every unregister (and after every other
  command) on a well-formed view.\<close>

lemma run_handler_index_consistent:
  assumes "view_ok v"
    and "\<And>p. cmd = AgentRegister p \<Longrightarrow> map_of (agents v) (writer c) = None"
  shows "index_consistent (view_after (run_handler v cmd c))"
  using run_handler_view_ok [OF assms] by (rule view_ok_consistent)



section \<open>Completion and reputation\<close>


lemma rate_ratings: "ratings (rate rep entry) = ratings rep @ [entry]"
  by (simp add: rate_def Let_def)



text \<open>What \<^verbatim>\<open>match_complete\<close> returns on a request that exists: never an error.\<close>

lemma match_complete_thrown:
  "thrown (match_complete v p c) =
     (if matchRequests v (cm_matchId p) = None then Some RequestNotFound else None)"
  by (auto simp: thrown_def match_complete_def prog_defs Let_def split: option.splits)

lemma match_complete_request:
  assumes "matchRequests v (cm_matchId p) = Some request"
  shows "\<exists>ev vm. match_complete v p c = (Inr (view_after (match_complete v p c), ev), vm) \<and>
           matchRequests (view_after (match_complete v p c)) =
             (matchRequests v)(cm_matchId p \<mapsto>
                request\<lparr>r_status := Completed,
                        r_completedAt := Some (timestamp c),
                        r_success := Some (case cm_success p of None \<Rightarrow> True | Some b \<Rightarrow> b),
                        r_rating := cm_rating p,
                        r_feedback := cm_feedback p\<rparr>)"
  using assms
  by (auto simp: match_complete_def prog_defs Let_def view_after_def split: option.splits)

lemma match_complete_rated:
  assumes "matchRequests v (cm_matchId p) = Some request"
    and "cm_rating p = Some rt" and "rt \<noteq> 0"
    and "r_acceptedWith request = Some acceptedWith" and "acceptedWith \<noteq> []"
  shows "reputation (view_after (match_complete v p c)) =
           (reputation v)
             ((if writer c = r_requesterId request then acceptedWith else r_requesterId request) \<mapsto>
                rate (case reputation v (if writer c = r_requesterId request then acceptedWith
                                         else r_requesterId request) of
                        None \<Rightarrow> \<lparr>totalRatings = 0, averageRating = 0, ratings = []\<rparr>
                      | Some r \<Rightarrow> r)
                     \<lparr>rt_rating = rt, rt_from = writer c, rt_matchId = cm_matchId p,
                      rt_timestamp = timestamp c\<rparr>)"
    and "agents (view_after (match_complete v p c)) =
           (case map_of (agents v) (if writer c = r_requesterId request then acceptedWith
                                    else r_requesterId request) of
              None \<Rightarrow> agents v
            | Some a \<Rightarrow>
                if (case cm_success p of None \<Rightarrow> True | Some b \<Rightarrow> b)
                then AList.update (if writer c = r_requesterId request then acceptedWith
                                   else r_requesterId request)
                       (a\<lparr>a_successCount := a_successCount a + 1\<rparr>) (agents v)
                else agents v)"
  using assms
  by (auto simp: match_complete_def prog_defs Let_def view_after_def split: option.splits)

lemma match_complete_unrated:
  assumes "\<not> truthy_num (cm_rating p) \<or> \<not> truthy_str (r_acceptedWith request)"
    and "matchRequests v (cm_matchId p) = Some request"
  shows "reputation (view_after (match_complete v p c)) = reputation v"
    and "agents (view_after (match_complete v p c)) = agents v"
  using assms
  by (auto simp: match_complete_def prog_defs Let_def view_after_def truthy_num_def truthy_str_def
        split: option.splits)











section \<open>Completion is unguarded\<close>

text \<open>
  Claim C10 as stated fails in its last part. On the request of \<open>pending_view\<close>, which has never
  been accepted, a completion with rating 5 by S raises no error and appends no rating
  record: the reputation map is unchanged.
\<close>

theorem rating_without_accepted_party_is_dropped:
  "matchRequests pending_view ''match-R-1000'' = Some pending_request \<and>
   r_acceptedWith pending_request = None \<and>
   cm_rating (complete_with ''match-R-1000'' (Some 5)) = Some 5 \<and>
   thrown (match_complete pending_view (complete_with ''match-R-1000'' (Some 5)) (ctx_of ''S'' 5000))
     = None \<and>
   reputation (view_after (match_complete pending_view (complete_with ''match-R-1000'' (Some 5))
                             (ctx_of ''S'' 5000)))
     = reputation pending_view \<and>
   ratings_of (view_after (match_complete pending_view (complete_with ''match-R-1000'' (Some 5))
                             (ctx_of ''S'' 5000))) ''R'' = []"
proof -
  let ?p = "complete_with ''match-R-1000'' (Some 5)"
  have m: "cm_matchId ?p = ''match-R-1000''" and r: "cm_rating ?p = Some 5"
    by (simp_all add: complete_with_def)
  have a: "r_acceptedWith pending_request = None"
    by (simp add: pending_request_def)
  have rq: "matchRequests pending_view (cm_matchId ?p) = Some pending_request"
    unfolding m by (rule pending_view_request)
  have t: "thrown (match_complete pending_view ?p (ctx_of ''S'' 5000)) = None"
    by (simp add: match_complete_thrown rq)
  have u: "reputation (view_after (match_complete pending_view ?p (ctx_of ''S'' 5000)))
             = reputation pending_view"
    by (rule match_complete_unrated(1) [OF _ rq]) (simp add: a truthy_str_def)
  have e: "ratings_of (view_after (match_complete pending_view ?p (ctx_of ''S'' 5000))) ''R'' = []"
    by code_simp
  from pending_view_request a r t u e show ?thesis
    by simp
qed

text \<open>
  Claim C10, amended. For every view that holds a request under the match id, every signer
  and every status of the request, \<^verbatim>\<open>match_complete\<close> raises no error and returns a view in
  which the request is completed, with its requester and accepted proposer as before. If the
  command carries a rating other than 0 and the request has an accepted proposer, the rating
  record is appended to the ratings of the target (the accepted proposer when the signer is
  the requester, the requester otherwise); if not, the reputation map is unchanged.
\<close>

theorem complete_is_unguarded:
  assumes "matchRequests v (cm_matchId p) = Some request"
  shows "\<exists>v' ev vm request'.
           match_complete v p c = (Inr (v', ev), vm) \<and>
           matchRequests v' (cm_matchId p) = Some request' \<and>
           r_status request' = Completed \<and>
           r_requesterId request' = r_requesterId request \<and>
           r_acceptedWith request' = r_acceptedWith request \<and>
           (if truthy_num (cm_rating p) \<and> truthy_str (r_acceptedWith request)
            then \<exists>rt acceptedWith target.
                   cm_rating p = Some rt \<and> r_acceptedWith request = Some acceptedWith \<and>
                   target = (if writer c = r_requesterId request then acceptedWith
                             else r_requesterId request) \<and>
                   ratings_of v' target =
                     ratings_of v target @ [\<lparr>rt_rating = rt, rt_from = writer c,
                                             rt_matchId = cm_matchId p, rt_timestamp = timestamp c\<rparr>]
            else reputation v' = reputation v)"
proof -
  let ?v' = "view_after (match_complete v p c)"
  from match_complete_request [OF assms, of c]
  obtain ev vm where run: "match_complete v p c = (Inr (?v', ev), vm)"
    and mr: "matchRequests ?v' =
               (matchRequests v)(cm_matchId p \<mapsto>
                  request\<lparr>r_status := Completed,
                          r_completedAt := Some (timestamp c),
                          r_success := Some (case cm_success p of None \<Rightarrow> True | Some b \<Rightarrow> b),
                          r_rating := cm_rating p,
                          r_feedback := cm_feedback p\<rparr>)"
    by blast
  have rep: "if truthy_num (cm_rating p) \<and> truthy_str (r_acceptedWith request)
            then \<exists>rt acceptedWith target.
                   cm_rating p = Some rt \<and> r_acceptedWith request = Some acceptedWith \<and>
                   target = (if writer c = r_requesterId request then acceptedWith
                             else r_requesterId request) \<and>
                   ratings_of ?v' target =
                     ratings_of v target @ [\<lparr>rt_rating = rt, rt_from = writer c,
                                             rt_matchId = cm_matchId p, rt_timestamp = timestamp c\<rparr>]
            else reputation ?v' = reputation v"
  proof (cases "truthy_num (cm_rating p) \<and> truthy_str (r_acceptedWith request)")
    case False
    then show ?thesis
      using match_complete_unrated(1) [OF _ assms, of c] by auto
  next
    case True
    then obtain rt acceptedWith where r: "cm_rating p = Some rt" "rt \<noteq> 0"
      "r_acceptedWith request = Some acceptedWith" "acceptedWith \<noteq> []"
      by (auto simp: truthy_num_def truthy_str_def split: option.splits)
    have "ratings_of ?v' (if writer c = r_requesterId request then acceptedWith
                          else r_requesterId request) =
            ratings_of v (if writer c = r_requesterId request then acceptedWith
                          else r_requesterId request)
              @ [\<lparr>rt_rating = rt, rt_from = writer c,
                  rt_matchId = cm_matchId p, rt_timestamp = timestamp c\<rparr>]"
      unfolding ratings_of_def match_complete_rated(1) [OF assms r]
      by (simp add: rate_ratings split: option.splits)
    with True r show ?thesis
      by simp
  qed
  from run mr rep show ?thesis
    by (intro exI [of _ ?v'] exI [of _ ev] exI [of _ vm]) simp
qed

theorem complete_is_unguarded_witness:
  "map_option r_status (matchRequests completed_view ''match-R-1000'') = Some Completed \<and>
   map_option r_requesterId (matchRequests completed_view ''match-R-1000'') = Some ''R'' \<and>
   map_option r_acceptedWith (matchRequests completed_view ''match-R-1000'') = Some (Some ''P'') \<and>
   map_option a_id (map_of (agents completed_view) ''S'') = None \<and>
   map rt_rating (ratings_of completed_view ''R'') = [4] \<and>
   (\<exists>v' ev vm.
      match_complete completed_view (complete_with ''match-R-1000'' (Some 5)) (ctx_of ''S'' 6000)
        = (Inr (v', ev), vm) \<and>
      map_option r_status (matchRequests v' ''match-R-1000'') = Some Completed \<and>
      map rt_rating (ratings_of v' ''R'') = [4, 5])"
proof -
  let ?p = "complete_with ''match-R-1000'' (Some 5)"
  let ?c = "ctx_of ''S'' 6000"
  have st: "map_option r_status (matchRequests completed_view ''match-R-1000'') = Some Completed"
    and rq: "map_option r_requesterId (matchRequests completed_view ''match-R-1000'') = Some ''R''"
    and ra: "map_option r_acceptedWith (matchRequests completed_view ''match-R-1000'') = Some (Some ''P'')"
    and sg: "map_option a_id (map_of (agents completed_view) ''S'') = None"
    and old: "map rt_rating (ratings_of completed_view ''R'') = [4]"
    by code_simp+
  from rq ra obtain request where
    request: "matchRequests completed_view (cm_matchId ?p) = Some request"
      "r_requesterId request = ''R''" "r_acceptedWith request = Some ''P''"
    by (auto simp: complete_with_def)
  have tr: "truthy_num (cm_rating ?p) \<and> truthy_str (r_acceptedWith request)"
    by (simp add: complete_with_def request(3) truthy_num_def truthy_str_def)
  from complete_is_unguarded [OF request(1), of ?c]
  obtain v' ev vm request' where
    run: "match_complete completed_view ?p ?c = (Inr (v', ev), vm)"
    and r': "matchRequests v' (cm_matchId ?p) = Some request'" "r_status request' = Completed"
    and rs: "\<exists>rt acceptedWith target.
               cm_rating ?p = Some rt \<and> r_acceptedWith request = Some acceptedWith \<and>
               target = (if writer ?c = r_requesterId request then acceptedWith
                         else r_requesterId request) \<and>
               ratings_of v' target =
                 ratings_of completed_view target @ [\<lparr>rt_rating = rt, rt_from = writer ?c,
                    rt_matchId = cm_matchId ?p, rt_timestamp = timestamp ?c\<rparr>]"
    using tr by auto
  from rs have "ratings_of v' ''R'' =
                  ratings_of completed_view ''R'' @ [\<lparr>rt_rating = 5, rt_from = ''S'',
                    rt_matchId = ''match-R-1000'', rt_timestamp = 6000\<rparr>]"
    by (auto simp: request(2,3) complete_with_def ctx_of_def)
  then have new: "map rt_rating (ratings_of v' ''R'') = [4, 5]"
    using old by simp
  have st': "map_option r_status (matchRequests v' ''match-R-1000'') = Some Completed"
    using r' by (simp add: complete_with_def)
  have "\<exists>v' ev vm.
      match_complete completed_view ?p ?c = (Inr (v', ev), vm) \<and>
      map_option r_status (matchRequests v' ''match-R-1000'') = Some Completed \<and>
      map rt_rating (ratings_of v' ''R'') = [4, 5]"
    by (rule exI [of _ v'], rule exI [of _ ev], rule exI [of _ vm]) (simp add: run new st')
  with st rq ra sg old show ?thesis
    by simp
qed

section \<open>The registry stays keyed by agent id\<close>

lemmas agents_wf_simps =
  agents_wf_iff AList.distinct_update AList.update_conv' AList.distinct_delete AList.delete_conv'

lemma run_handler_agents_wf:
  assumes wf: "agents_wf v"
  shows "agents_wf (view_after (run_handler v cmd c))"
proof (cases cmd)
  case (AgentRegister p)
  then show ?thesis
    using wf
    by (auto simp: agent_register_def prog_defs Let_def view_after_def new_agent_id
          agents_wf_simps simp del: map_of_eq_Some_iff)
next
  case (AgentUpdate p)
  then show ?thesis
    using wf
    by (auto simp: agent_update_def prog_defs Let_def view_after_def updated_agent_id
          agents_wf_simps simp del: map_of_eq_Some_iff split: option.splits)
next
  case AgentUnregister
  then show ?thesis
    using wf
    by (auto simp: agent_unregister_def prog_defs Let_def view_after_def agents_wf_simps
          simp del: map_of_eq_Some_iff split: option.splits if_splits)
next
  case (MatchCreate p)
  then show ?thesis
    using wf by (auto simp: match_create_def prog_defs Let_def view_after_def agents_wf_def)
next
  case (MatchPropose p)
  then show ?thesis
    using wf
    by (auto simp: match_propose_def prog_defs Let_def view_after_def agents_wf_def
          split: option.splits)
next
  case (MatchAccept p)
  then show ?thesis
    using wf
    by (auto simp: match_accept_def prog_defs Let_def view_after_def agents_wf_simps
          simp del: map_of_eq_Some_iff split: option.splits if_splits)
next
  case (MatchComplete p)
  then show ?thesis
    using wf
    by (auto simp: match_complete_def prog_defs Let_def view_after_def agents_wf_simps
          simp del: map_of_eq_Some_iff split: option.splits if_splits)
next
  case (ChannelJoin ch)
  then show ?thesis
    using wf
    by (auto simp: channel_join_def prog_defs Let_def view_after_def agents_wf_def
          split: option.splits)
next
  case (ChannelLeave ch)
  then show ?thesis
    using wf
    by (auto simp: channel_leave_def prog_defs Let_def view_after_def agents_wf_def
          split: option.splits)
next
  case MessageRecord
  then show ?thesis
    using wf by (auto simp: message_record_def prog_defs view_after_def agents_wf_def)
qed

text \<open>Every view the handlers produce from the initial state holds each agent under its own
  id, whatever the commands.\<close>

lemma run_commands_agents_wf:
  "agents_wf v \<Longrightarrow> agents_wf (run_commands v cmds)"
proof (induction cmds arbitrary: v)
  case Nil
  then show ?case by simp
next
  case (Cons x cmds)
  obtain cmd c where x: "x = (cmd, c)" by (cases x)
  show ?case
    unfolding x by (simp add: Cons.IH run_handler_agents_wf [OF Cons.prems])
qed

lemma agents_wf_initial: "agents_wf initial_state"
  by (simp add: agents_wf_def initial_state_def)

end
